theory Spec2Isabelle
  imports Complex_Main "HOL-Library.Word"
begin

section \<open>Bytes, strings and the codec of the relay\<close>

text \<open>
  The bridge of \<^verbatim>\<open>tinet-bridge.py\<close> relays data between a serial device and a TCP
  server.  Python \<^verbatim>\<open>bytes\<close> are lists of octets; a Python \<^verbatim>\<open>str\<close> is a list of
  Unicode code points.  \<^verbatim>\<open>bytes.decode()\<close> and \<^verbatim>\<open>str.encode()\<close> are the strict
  UTF-8 codec: decoding raises \<^verbatim>\<open>UnicodeDecodeError\<close> on an ill-formed sequence,
  encoding raises \<^verbatim>\<open>UnicodeEncodeError\<close> on a surrogate.
\<close>

type_synonym byte = "8 word"
type_synonym bytes = "byte list"
type_synonym str = "nat list"

datatype error =
    AttributeError
  | RuntimeError
  | UnicodeDecodeError
  | UnicodeEncodeError
  | SerialException
  | OSError

definition is_cont :: "nat \<Rightarrow> bool" where
  "is_cont n = (0x80 \<le> n \<and> n \<le> 0xBF)"

text \<open>The second octet of a three-octet and of a four-octet sequence is restricted by
  the first one (no overlong forms, no surrogates, nothing above U+10FFFF).\<close>

definition second3 :: "nat \<Rightarrow> nat \<Rightarrow> bool" where
  "second3 a b =
     (if a = 0xE0 then 0xA0 \<le> b \<and> b \<le> 0xBF
      else if a = 0xED then 0x80 \<le> b \<and> b \<le> 0x9F
      else is_cont b)"

definition second4 :: "nat \<Rightarrow> nat \<Rightarrow> bool" where
  "second4 a b =
     (if a = 0xF0 then 0x90 \<le> b \<and> b \<le> 0xBF
      else if a = 0xF4 then 0x80 \<le> b \<and> b \<le> 0x8F
      else is_cont b)"

text \<open>\<open>decode1\<close> reads one code point from the front of the octets and returns it with
  the octets that remain; \<open>None\<close> is an ill-formed sequence.\<close>

fun decode1 :: "nat list \<Rightarrow> (nat \<times> nat list) option" where
  "decode1 [] = None"
| "decode1 (a # bs) =
     (if a < 0x80 then Some (a, bs)
      else if 0xC2 \<le> a \<and> a \<le> 0xDF then
        (case bs of
           b # r \<Rightarrow>
             if is_cont b then Some ((a - 0xC0) * 64 + (b - 0x80), r) else None
         | _ \<Rightarrow> None)
      else if 0xE0 \<le> a \<and> a \<le> 0xEF then
        (case bs of
           b # c # r \<Rightarrow>
             if second3 a b \<and> is_cont c
             then Some ((a - 0xE0) * 4096 + (b - 0x80) * 64 + (c - 0x80), r)
             else None
         | _ \<Rightarrow> None)
      else if 0xF0 \<le> a \<and> a \<le> 0xF4 then
        (case bs of
           b # c # d # r \<Rightarrow>
             if second4 a b \<and> is_cont c \<and> is_cont d
             then Some ((a - 0xF0) * 262144 + (b - 0x80) * 4096 + (c - 0x80) * 64 + (d - 0x80), r)
             else None
         | _ \<Rightarrow> None)
      else None)"

lemma decode1_shorter: "decode1 bs = Some (cp, r) \<Longrightarrow> length r < length bs"
  by (cases bs) (auto split: if_splits list.splits)

function decode_units :: "nat list \<Rightarrow> str option" where
  "decode_units bs =
     (if bs = [] then Some []
      else case decode1 bs of
             None \<Rightarrow> None
           | Some (cp, r) \<Rightarrow> map_option ((#) cp) (decode_units r))"
  by pat_completeness auto
termination
  by (relation "measure length") (auto dest: decode1_shorter)

declare decode_units.simps [simp del]

definition encode1 :: "nat \<Rightarrow> nat list option" where
  "encode1 cp =
     (if cp < 0x80 then Some [cp]
      else if cp < 0x800 then Some [0xC0 + cp div 64, 0x80 + cp mod 64]
      else if cp < 0x10000 then
        (if 0xD800 \<le> cp \<and> cp \<le> 0xDFFF then None
         else Some [0xE0 + cp div 4096, 0x80 + cp div 64 mod 64, 0x80 + cp mod 64])
      else if cp \<le> 0x10FFFF then
        Some [0xF0 + cp div 262144, 0x80 + cp div 4096 mod 64,
              0x80 + cp div 64 mod 64, 0x80 + cp mod 64]
      else None)"

fun encode_units :: "str \<Rightarrow> nat list option" where
  "encode_units [] = Some []"
| "encode_units (cp # cps) =
     (case encode1 cp of
        None \<Rightarrow> None
      | Some u \<Rightarrow> map_option ((@) u) (encode_units cps))"

text \<open>\<^verbatim>\<open>data.decode()\<close> and \<^verbatim>\<open>text.encode()\<close>.\<close>

definition decode :: "bytes \<Rightarrow> error + str" where
  "decode data =
     (case decode_units (map unat data) of
        None \<Rightarrow> Inl UnicodeDecodeError
      | Some s \<Rightarrow> Inr s)"

definition encode :: "str \<Rightarrow> error + bytes" where
  "encode s =
     (case encode_units s of
        None \<Rightarrow> Inl UnicodeEncodeError
      | Some us \<Rightarrow> Inr (map of_nat us))"

text \<open>A string literal of the source, as code points and as the octets of its
  encoding (the literals of the source are ASCII).\<close>

definition lit :: "string \<Rightarrow> str" where
  "lit cs = map of_char cs"

definition blit :: "string \<Rightarrow> bytes" where
  "blit cs = map of_char cs"

text \<open>\<open>occurs old s\<close>: the sequence \<open>old\<close> is found somewhere in \<open>s\<close> (Python's
  \<^verbatim>\<open>old in s\<close>).\<close>

fun occurs :: "'a list \<Rightarrow> 'a list \<Rightarrow> bool" where
  "occurs old [] = (old = [])"
| "occurs old (c # cs) = (take (length old) (c # cs) = old \<or> occurs old cs)"

text \<open>\<^verbatim>\<open>s.replace(old, new)\<close>: every occurrence of \<open>old\<close>, found from the left and not
  overlapping, is replaced; with an empty \<open>old\<close> Python inserts \<open>new\<close> before every
  character and at the end.\<close>

function replace :: "'a list \<Rightarrow> 'a list \<Rightarrow> 'a list \<Rightarrow> 'a list" where
  "replace old new s =
     (if old = [] then new @ concat (map (\<lambda>c. c # new) s)
      else if s = [] then []
      else if take (length old) s = old then new @ replace old new (drop (length old) s)
      else hd s # replace old new (tl s))"
  by pat_completeness auto
termination
  by (relation "measure (\<lambda>(old, new, s). length s)") (auto simp: Suc_le_eq)

declare replace.simps [simp del]

text \<open>Line 183: \<^verbatim>\<open>data.decode().replace("/0", "").replace("\0", "")\<close>, without the
  decoding.\<close>

definition strip_delimiters :: "str \<Rightarrow> str" where
  "strip_delimiters s = replace [0] [] (replace (lit ''/0'') [] s)"

section \<open>The state of the bridge\<close>

text \<open>The module constants of lines 20 to 23.\<close>

record config =
  SERIAL :: bool
  DEBUG :: bool
  MANUAL_PORT :: bool
  ENABLE_RECONNECT :: bool

definition source_config :: config where
  "source_config =
     \<lparr>SERIAL = True, DEBUG = True, MANUAL_PORT = False, ENABLE_RECONNECT = True\<rparr>"

text \<open>An entry of \<^verbatim>\<open>list_ports.comports()\<close>.\<close>

record port =
  device :: string
  description :: string

text \<open>The \<^verbatim>\<open>serial.Serial\<close> object held in \<^verbatim>\<open>self.serial\<close> and the
  \<^verbatim>\<open>socket.socket\<close> object held in \<^verbatim>\<open>self.socket\<close>.\<close>

record serial_handle =
  is_open :: bool
  name :: string

record socket_handle =
  sk_timeout :: "rat option"
  sk_connected :: bool
  sk_closed :: bool

text \<open>What the program does to the world outside, in the order it does it.\<close>

datatype event =
    Sleep nat
  | Comports
  | Open_serial string bool
  | Serial_write bytes
  | Socket_send bytes
  | Socket_recv "rat option"

datatype thread = MainThread | SocketThread | SerialThread

datatype status = Created | Started | Finished

text \<open>
  The two thread objects of \<^verbatim>\<open>main\<close>, which refer to each other, in one record: the
  fields of the \<^verbatim>\<open>SocketThread\<close> object (\<open>sock_alive\<close> is its \<^verbatim>\<open>alive\<close>,
  \<open>sock_socket\<close> its \<^verbatim>\<open>socket\<close>, \<open>None\<close> until \<^verbatim>\<open>run\<close> creates it), the fields
  of the \<^verbatim>\<open>SerialThread\<close> object, and the trace of events.  \<open>serial_manager\<close> and
  \<open>socket_manager\<close> are \<open>False\<close> while the attribute is \<^verbatim>\<open>None\<close> and \<open>True\<close>
  once it refers to the peer.  A lock field is \<open>True\<close> while another thread holds
  the lock.
\<close>

record bridge =
  sock_alive :: bool
  sock_socket :: "socket_handle option"
  serial_manager :: bool
  sock_lock :: bool
  sock_status :: status
  ser_alive :: bool
  ser_serial :: serial_handle
  socket_manager :: bool
  ser_lock :: bool
  ser_status :: status
  serial_port :: string
  trace :: "event list"

text \<open>
  A call returns a value, raises, or has not returned by the end of what the
  environment is scripted to do (\<open>Waiting\<close>: the thread waits for a lock, for the
  peer reference, for a device or for input); each with the state it leaves.
\<close>

datatype 'a result = Return 'a bridge | Raise error bridge | Waiting bridge

fun state_of :: "'a result \<Rightarrow> bridge" where
  "state_of (Return v s) = s"
| "state_of (Raise e s) = s"
| "state_of (Waiting s) = s"

fun returns :: "'a result \<Rightarrow> bool" where
  "returns (Return v s) = True"
| "returns (Raise e s) = False"
| "returns (Waiting s) = False"


fun and_then :: "'a result \<Rightarrow> ('a \<Rightarrow> bridge \<Rightarrow> 'b result) \<Rightarrow> 'b result" where
  "and_then (Return v s) f = f v s"
| "and_then (Raise e s) f = Raise e s"
| "and_then (Waiting s) f = Waiting s"

definition logged :: "event list \<Rightarrow> bridge \<Rightarrow> bridge" where
  "logged evs s = s\<lparr>trace := trace s @ evs\<rparr>"

section \<open>Writing to a channel\<close>

text \<open>
  Lines 194 to 197 and 116 to 119: \<^verbatim>\<open>with self._lock: return self.serial.write(data)\<close>
  and \<^verbatim>\<open>with self._lock: return self.socket.send(data)\<close>.  Writing to a port that is
  not open raises \<^verbatim>\<open>PortNotOpenError\<close>, a \<^verbatim>\<open>SerialException\<close>; \<^verbatim>\<open>None\<close> has no
  \<^verbatim>\<open>send\<close>; sending on a socket that is closed or not connected raises \<^verbatim>\<open>OSError\<close>.
  An open medium takes the whole buffer.
\<close>

definition SerialThread_write :: "bridge \<Rightarrow> bytes \<Rightarrow> nat result" where
  "SerialThread_write s data =
     (if ser_lock s then Waiting s
      else if is_open (ser_serial s) then Return (length data) (logged [Serial_write data] s)
      else Raise SerialException s)"

definition SocketThread_write :: "bridge \<Rightarrow> bytes \<Rightarrow> nat result" where
  "SocketThread_write s data =
     (if sock_lock s then Waiting s
      else case sock_socket s of
             None \<Rightarrow> Raise AttributeError s
           | Some k \<Rightarrow>
               if sk_connected k \<and> \<not> sk_closed k
               then Return (length data) (logged [Socket_send data] s)
               else Raise OSError s)"

section \<open>Stopping a channel\<close>

text \<open>
  \<^verbatim>\<open>Thread.join\<close>, called by the thread \<open>caller\<close> on the thread \<open>target\<close> whose status
  is \<open>st\<close>: it raises \<^verbatim>\<open>RuntimeError\<close> when the target was never started and when a
  thread joins itself; otherwise it returns once the target has finished, or, with a
  timeout (\<open>timed\<close>), after the timeout at the latest.
\<close>

definition join :: "thread \<Rightarrow> thread \<Rightarrow> status \<Rightarrow> bool \<Rightarrow> bridge \<Rightarrow> unit result" where
  "join caller target st timed s =
     (if st = Created then Raise RuntimeError s
      else if caller = target then Raise RuntimeError s
      else if st = Finished \<or> timed then Return () s
      else Waiting s)"

text \<open>Lines 61 to 69.\<close>

definition SocketThread_stop :: "thread \<Rightarrow> bridge \<Rightarrow> unit result" where
  "SocketThread_stop caller s0 =
     (let s = s0\<lparr>sock_alive := False\<rparr> in
      and_then
        (if \<not> serial_manager s then Raise AttributeError s
         else if ser_alive s
           then and_then (SerialThread_write s (blit ''internetDisconnected''))
                  (\<lambda>n. Return ())
           else Return () s)
        (\<lambda>u s1. case sock_socket s1 of
                   None \<Rightarrow> Raise AttributeError s1
                 | Some k \<Rightarrow>
                     join caller SocketThread (sock_status s1) False
                       (s1\<lparr>sock_socket := Some (k\<lparr>sk_closed := True\<rparr>)\<rparr>)))"

text \<open>Lines 144 to 149.  \<^verbatim>\<open>cancel_read\<close> interrupts a read that is under way and
  changes nothing in the state; \<^verbatim>\<open>self.join(2)\<close> has a timeout.\<close>

definition SerialThread_stop :: "thread \<Rightarrow> bridge \<Rightarrow> unit result" where
  "SerialThread_stop caller s0 =
     join caller SerialThread (ser_status s0) True (s0\<lparr>ser_alive := False\<rparr>)"

section \<open>The serial channel\<close>

text \<open>Lines 42 to 48.  The argument is what \<^verbatim>\<open>comports()\<close> answers, call after call;
  when the answers run out the function is still polling.\<close>

definition recognised :: "port \<Rightarrow> bool" where
  "recognised p =
     (occurs ''USB Serial Device'' (description p) \<or> occurs ''TI-84'' (description p))"

fun find_serial_port :: "port list list \<Rightarrow> bridge \<Rightarrow> port result" where
  "find_serial_port [] s = Waiting s"
| "find_serial_port (ports # later) s =
     (case find recognised ports of
        Some p \<Rightarrow> Return p (logged [Sleep 1, Comports] s)
      | None \<Rightarrow> find_serial_port later (logged [Sleep 1, Comports] s))"

text \<open>What the environment does during one round of the retry loop of lines 163 to
  174: the answers of \<^verbatim>\<open>comports()\<close> and whether \<^verbatim>\<open>serial.Serial(...)\<close> opens the
  port (it raises otherwise).\<close>

record attempt =
  scans :: "port list list"
  opens :: bool

definition bridgeConnected :: bytes where
  "bridgeConnected = blit ''bridgeConnected'' @ [0]"

fun reconnect :: "config \<Rightarrow> attempt list \<Rightarrow> bridge \<Rightarrow> unit result" where
  "reconnect cfg [] s = Waiting s"
| "reconnect cfg (a # later) s =
     (case (if MANUAL_PORT cfg then Return (serial_port s) (logged [Sleep 1] s)
            else and_then (find_serial_port (scans a) (logged [Sleep 1] s))
                   (\<lambda>p. Return (device p))) of
        Waiting s1 \<Rightarrow> Waiting s1
      | Raise e s1 \<Rightarrow> reconnect cfg later s1
      | Return dev s1 \<Rightarrow>
          if opens a then
            (case SerialThread_write
                    (logged [Open_serial dev True] (s1\<lparr>ser_serial := \<lparr>is_open = True, name = dev\<rparr>\<rparr>))
                    bridgeConnected of
               Return n s2 \<Rightarrow> Return () s2
             | Raise e s2 \<Rightarrow> reconnect cfg later s2
             | Waiting s2 \<Rightarrow> Waiting s2)
          else reconnect cfg later (logged [Open_serial dev False] s1))"

text \<open>Lines 179 to 190, the \<^verbatim>\<open>else\<close> branch of the \<^verbatim>\<open>try\<close>: nothing here is inside
  a \<^verbatim>\<open>try\<close>.\<close>

definition SerialThread_forward :: "bridge \<Rightarrow> bytes \<Rightarrow> unit result" where
  "SerialThread_forward s data =
     (if data = [] then Return () s
      else case decode data of
             Inl e \<Rightarrow> Raise e s
           | Inr text \<Rightarrow>
               if \<not> socket_manager s then Raise AttributeError s
               else case encode (strip_delimiters text) of
                      Inl e \<Rightarrow> Raise e s
                    | Inr out \<Rightarrow> and_then (SocketThread_write s out) (\<lambda>n. Return ()))"

text \<open>What \<^verbatim>\<open>self.serial.read(...)\<close> does in one iteration: it returns data, or it
  raises, and then the rounds of the retry loop go as given.\<close>

datatype serial_read = Read_data bytes | Read_error "attempt list"

definition SerialThread_iteration :: "config \<Rightarrow> bridge \<Rightarrow> serial_read \<Rightarrow> unit result" where
  "SerialThread_iteration cfg s r =
     (case r of
        Read_error rounds \<Rightarrow>
          if ENABLE_RECONNECT cfg then reconnect cfg rounds s
          else Return () (s\<lparr>ser_alive := False\<rparr>)
      | Read_data data \<Rightarrow> SerialThread_forward s data)"

text \<open>Lines 151 to 192.\<close>

fun SerialThread_run :: "config \<Rightarrow> serial_read list \<Rightarrow> bridge \<Rightarrow> unit result" where
  "SerialThread_run cfg [] s =
     (if ser_alive s \<and> is_open (ser_serial s) then Waiting s
      else Return () (s\<lparr>ser_alive := False\<rparr>))"
| "SerialThread_run cfg (r # rs) s =
     (if ser_alive s \<and> is_open (ser_serial s)
      then and_then (SerialThread_iteration cfg s r) (\<lambda>u. SerialThread_run cfg rs)
      else Return () (s\<lparr>ser_alive := False\<rparr>))"

section \<open>The socket channel\<close>

text \<open>Lines 98 to 114, what follows the \<^verbatim>\<open>try\<close> in an iteration; \<^verbatim>\<open>self.stop()\<close> is
  called by the socket thread itself.\<close>

definition SocketThread_forward :: "bridge \<Rightarrow> bytes \<Rightarrow> unit result" where
  "SocketThread_forward s server_response =
     and_then
       (if server_response = [] then SocketThread_stop SocketThread s else Return () s)
       (\<lambda>u s1.
          case decode server_response of
            Inl e \<Rightarrow> Raise e s1
          | Inr text \<Rightarrow>
              and_then
                (if \<not> serial_manager s1 then Raise AttributeError s1
                 else if ser_alive s1 then
                   (case encode text of
                      Inl e \<Rightarrow> Raise e s1
                    | Inr out \<Rightarrow> and_then (SerialThread_write s1 out) (\<lambda>n. Return ()))
                 else Return () s1)
                (\<lambda>u s2.
                   Return () (if text = lit ''DISCONNECT'' then s2\<lparr>sock_alive := False\<rparr> else s2)))"

text \<open>What \<^verbatim>\<open>self.socket.recv(4096)\<close> does on a connected socket: it times out, it
  raises another exception, or it returns data (no data when the server has closed
  the connection).\<close>

datatype recv = Recv_timeout | Recv_error | Recv_data bytes

text \<open>Lines 89 to 114.  \<^verbatim>\<open>recv\<close> on \<^verbatim>\<open>None\<close> and on a socket that is closed or not
  connected raises at once, which \<^verbatim>\<open>except Exception\<close> catches; \<^verbatim>\<open>server_response\<close>
  is then still empty.\<close>

definition SocketThread_iteration :: "bridge \<Rightarrow> recv \<Rightarrow> unit result" where
  "SocketThread_iteration s r =
     (case sock_socket s of
        None \<Rightarrow>
          and_then (SocketThread_stop SocketThread s) (\<lambda>u s1. SocketThread_forward s1 [])
      | Some k \<Rightarrow>
          if sk_closed k \<or> \<not> sk_connected k then
            and_then (SocketThread_stop SocketThread s) (\<lambda>u s1. SocketThread_forward s1 [])
          else
            (case r of
               Recv_timeout \<Rightarrow> Return () (logged [Socket_recv (sk_timeout k)] s)
             | Recv_error \<Rightarrow>
                 and_then (SocketThread_stop SocketThread (logged [Socket_recv (sk_timeout k)] s))
                   (\<lambda>u s1. SocketThread_forward s1 [])
             | Recv_data d \<Rightarrow> SocketThread_forward (logged [Socket_recv (sk_timeout k)] s) d))"

text \<open>Lines 88 to 114.\<close>

fun SocketThread_loop :: "recv list \<Rightarrow> bridge \<Rightarrow> unit result" where
  "SocketThread_loop [] s = (if sock_alive s then Waiting s else Return () s)"
| "SocketThread_loop (r # rs) s =
     (if sock_alive s
      then and_then (SocketThread_iteration s r) (\<lambda>u. SocketThread_loop rs)
      else Return () s)"

text \<open>Lines 71 to 114.  \<open>connects\<close> is whether \<^verbatim>\<open>connect\<close> succeeds; its exceptions
  (\<^verbatim>\<open>socket.timeout\<close> among them) are subclasses of \<^verbatim>\<open>OSError\<close> and nothing catches
  them.\<close>

definition new_socket :: socket_handle where
  "new_socket = \<lparr>sk_timeout = None, sk_connected = False, sk_closed = False\<rparr>"

definition SocketThread_run :: "bool \<Rightarrow> recv list \<Rightarrow> bridge \<Rightarrow> unit result" where
  "SocketThread_run connects rs s =
     (if \<not> serial_manager s then Waiting s
      else
        let s1 = s\<lparr>sock_socket := Some (new_socket\<lparr>sk_timeout := Some 10\<rparr>)\<rparr> in
        if \<not> connects then Raise OSError s1
        else
          and_then
            (SerialThread_write
               (s1\<lparr>sock_socket := Some (new_socket\<lparr>sk_timeout := Some 10, sk_connected := True\<rparr>),
                    sock_alive := True\<rparr>)
               bridgeConnected)
            (\<lambda>n. SocketThread_loop rs))"

section \<open>The start of the threads\<close>

text \<open>
  The constructors of lines 54 to 59 and 125 to 142, as \<^verbatim>\<open>main\<close> calls them in lines
  323 and 324: the socket thread object has no socket and no peer yet; the serial
  thread object holds the port it has opened.
\<close>

definition constructed :: "string \<Rightarrow> string \<Rightarrow> bridge" where
  "constructed selected dev =
     \<lparr>sock_alive = False, sock_socket = None, serial_manager = False, sock_lock = False,
      sock_status = Created,
      ser_alive = True, ser_serial = \<lparr>is_open = True, name = dev\<rparr>, socket_manager = False,
      ser_lock = False, ser_status = Created, serial_port = selected, trace = []\<rparr>"

text \<open>The statements of \<^verbatim>\<open>main\<close> that follow, lines 325 to 329.\<close>

datatype action = Set_serial_manager | Set_socket_manager | Start_serial | Start_socket

definition main_program :: "action list" where
  "main_program = [Set_serial_manager, Set_socket_manager, Start_serial, Start_socket]"

fun do_action :: "action \<Rightarrow> bridge \<Rightarrow> bridge" where
  "do_action Set_serial_manager s = s\<lparr>serial_manager := True\<rparr>"
| "do_action Set_socket_manager s = s\<lparr>socket_manager := True\<rparr>"
| "do_action Start_serial s = s\<lparr>ser_status := Started\<rparr>"
| "do_action Start_socket s = s\<lparr>sock_status := Started\<rparr>"

text \<open>
  The threads take turns.  A turn of \<^verbatim>\<open>main\<close> is one statement.  A turn of the socket
  thread is one test of the loop of line 72, the connection of lines 75 to 83, the
  write of line 85, or one iteration of the loop of line 88; \<open>pc\<close> is where the thread
  stands in \<^verbatim>\<open>run\<close>.  A turn of the serial thread is one iteration of its loop.  Only
  \<^verbatim>\<open>main\<close> assigns \<^verbatim>\<open>serial_manager\<close>, in one statement, so finer turns of the two
  threads would show the socket thread nothing else.  \<open>premature\<close> becomes \<open>True\<close>
  when the socket thread reaches its write to the serial channel while
  \<^verbatim>\<open>serial_manager\<close> is still \<^verbatim>\<open>None\<close> (the write then raises \<^verbatim>\<open>AttributeError\<close>).
\<close>

datatype pc = At_barrier | At_connect | At_handshake | In_loop | Ended

record system =
  shared :: bridge
  todo :: "action list"
  pc :: pc
  premature :: bool

datatype turn = Main_turn | Socket_turn recv | Serial_turn serial_read

definition main_step :: "system \<Rightarrow> system" where
  "main_step sys =
     (case todo sys of
        [] \<Rightarrow> sys
      | a # later \<Rightarrow> sys\<lparr>shared := do_action a (shared sys), todo := later\<rparr>)"

definition socket_step :: "bool \<Rightarrow> recv \<Rightarrow> system \<Rightarrow> system" where
  "socket_step connects r sys =
     (let s = shared sys in
      if sock_status s \<noteq> Started then sys
      else case pc sys of
        At_barrier \<Rightarrow> if serial_manager s then sys\<lparr>pc := At_connect\<rparr> else sys
      | At_connect \<Rightarrow>
          if connects
          then sys\<lparr>shared :=
                     s\<lparr>sock_socket :=
                          Some (new_socket\<lparr>sk_timeout := Some 10, sk_connected := True\<rparr>),
                        sock_alive := True\<rparr>,
                   pc := At_handshake\<rparr>
          else sys\<lparr>shared := s\<lparr>sock_socket := Some (new_socket\<lparr>sk_timeout := Some 10\<rparr>),
                                sock_status := Finished\<rparr>,
                   pc := Ended\<rparr>
      | At_handshake \<Rightarrow>
          if \<not> serial_manager s
          then sys\<lparr>shared := s\<lparr>sock_status := Finished\<rparr>, pc := Ended, premature := True\<rparr>
          else (case SerialThread_write s bridgeConnected of
                  Return n s1 \<Rightarrow> sys\<lparr>shared := s1, pc := In_loop\<rparr>
                | Raise e s1 \<Rightarrow> sys\<lparr>shared := s1\<lparr>sock_status := Finished\<rparr>, pc := Ended\<rparr>
                | Waiting s1 \<Rightarrow> sys)
      | In_loop \<Rightarrow>
          if \<not> sock_alive s then sys\<lparr>shared := s\<lparr>sock_status := Finished\<rparr>, pc := Ended\<rparr>
          else (case SocketThread_iteration s r of
                  Return u s1 \<Rightarrow> sys\<lparr>shared := s1\<rparr>
                | Raise e s1 \<Rightarrow> sys\<lparr>shared := s1\<lparr>sock_status := Finished\<rparr>, pc := Ended\<rparr>
                | Waiting s1 \<Rightarrow> sys)
      | Ended \<Rightarrow> sys)"

definition serial_step :: "config \<Rightarrow> serial_read \<Rightarrow> system \<Rightarrow> system" where
  "serial_step cfg r sys =
     (let s = shared sys in
      if ser_status s \<noteq> Started then sys
      else if \<not> (ser_alive s \<and> is_open (ser_serial s))
      then sys\<lparr>shared := s\<lparr>ser_alive := False, ser_status := Finished\<rparr>\<rparr>
      else case SerialThread_iteration cfg s r of
             Return u s1 \<Rightarrow> sys\<lparr>shared := s1\<rparr>
           | Raise e s1 \<Rightarrow> sys\<lparr>shared := s1\<lparr>ser_status := Finished\<rparr>\<rparr>
           | Waiting s1 \<Rightarrow> sys)"

fun step :: "config \<Rightarrow> bool \<Rightarrow> turn \<Rightarrow> system \<Rightarrow> system" where
  "step cfg connects Main_turn sys = main_step sys"
| "step cfg connects (Socket_turn r) sys = socket_step connects r sys"
| "step cfg connects (Serial_turn r) sys = serial_step cfg r sys"

fun interleave :: "config \<Rightarrow> bool \<Rightarrow> turn list \<Rightarrow> system \<Rightarrow> system" where
  "interleave cfg connects [] sys = sys"
| "interleave cfg connects (t # ts) sys = interleave cfg connects ts (step cfg connects t sys)"

definition start :: "bridge \<Rightarrow> action list \<Rightarrow> system" where
  "start s program = \<lparr>shared = s, todo = program, pc = At_barrier, premature = False\<rparr>"

text \<open>Two states agree on the two peer references and on whether the socket thread
  has been started.\<close>

definition same_wiring :: "bridge \<Rightarrow> bridge \<Rightarrow> bool" where
  "same_wiring s t =
     (serial_manager t = serial_manager s \<and> socket_manager t = socket_manager s
      \<and> sock_status t = sock_status s)"

text \<open>In \<^verbatim>\<open>main\<close> as it is written, the socket thread is started last: while it has not
  been started, \<^verbatim>\<open>main\<close> stands somewhere in lines 325 to 329 and has set what it has
  passed; afterwards both references are set.\<close>

definition main_order :: "system \<Rightarrow> bool" where
  "main_order sys =
     ((sock_status (shared sys) = Created
        \<and> (todo sys = main_program
            \<or> serial_manager (shared sys)
                \<and> todo sys = [Set_socket_manager, Start_serial, Start_socket]
            \<or> serial_manager (shared sys) \<and> socket_manager (shared sys)
                \<and> (todo sys = [Start_serial, Start_socket] \<or> todo sys = [Start_socket])))
      \<or> serial_manager (shared sys) \<and> socket_manager (shared sys))"

section \<open>Reading the trace\<close>

text \<open>The waits of the polls of the socket, in order: the timeout in force at each
  \<^verbatim>\<open>recv\<close>.\<close>

fun recv_timeouts :: "event list \<Rightarrow> rat option list" where
  "recv_timeouts [] = []"
| "recv_timeouts (Socket_recv t # evs) = t # recv_timeouts evs"
| "recv_timeouts (ev # evs) = recv_timeouts evs"

text \<open>The socket, if there is one, has the timeout of line 78, and so had every poll
  so far.\<close>

definition polls_wait_10 :: "bridge \<Rightarrow> bool" where
  "polls_wait_10 s =
     ((case sock_socket s of None \<Rightarrow> True | Some k \<Rightarrow> sk_timeout k = Some 10)
      \<and> list_all (\<lambda>t. t = Some 10) (recv_timeouts (trace s)))"

text \<open>A round of the retry loop in which \<^verbatim>\<open>comports()\<close> shows no port \<open>m\<close> times and
  then shows \<open>ports\<close>, and in which opening the port succeeds or not; and the events of
  such a round when \<open>p\<close> is the port found.\<close>

definition retry_round :: "nat \<Rightarrow> port list \<Rightarrow> bool \<Rightarrow> attempt" where
  "retry_round m ports ok = \<lparr>scans = replicate m [] @ [ports], opens = ok\<rparr>"

definition round_events :: "nat \<Rightarrow> port \<Rightarrow> bool \<Rightarrow> event list" where
  "round_events m p ok =
     Sleep 1 # concat (replicate (Suc m) [Sleep 1, Comports]) @ [Open_serial (device p) ok]"

section \<open>States for the examples\<close>

text \<open>Both threads run and the TCP connection stands.\<close>

definition running :: bridge where
  "running =
     \<lparr>sock_alive = True,
      sock_socket = Some \<lparr>sk_timeout = Some 10, sk_connected = True, sk_closed = False\<rparr>,
      serial_manager = True, sock_lock = False, sock_status = Started,
      ser_alive = True, ser_serial = \<lparr>is_open = True, name = ''COM3''\<rparr>, socket_manager = True,
      ser_lock = False, ser_status = Started, serial_port = ''COM3'', trace = []\<rparr>"

text \<open>\<^verbatim>\<open>main\<close> has wired and started both threads (lines 323 to 329); the socket thread
  has not run yet, so the TCP socket does not exist.\<close>

definition wired :: bridge where
  "wired = fold do_action main_program (constructed ''COM3'' ''COM3'')"

text \<open>A calculator as \<^verbatim>\<open>comports()\<close> lists it.\<close>

definition calculator :: port where
  "calculator = \<lparr>device = ''COM3'', description = ''TI-84 Plus CE''\<rparr>"

text \<open>The socket thread has ended and the serial thread still runs.\<close>

definition halted :: bridge where
  "halted = running\<lparr>sock_alive := False, sock_status := Finished\<rparr>"

section \<open>Properties of the codec\<close>

text \<open>Encoding is the inverse of decoding: what \<^verbatim>\<open>decode\<close> accepts, \<^verbatim>\<open>encode\<close> gives
  back octet for octet.\<close>

lemma split2:
  fixes x y :: nat
  assumes "y < 64"
  shows "(x * 64 + y) div 64 = x" and "(x * 64 + y) mod 64 = y"
  using assms by simp_all

lemma encode1_two:
  assumes "0xC2 \<le> a" "a \<le> 0xDF" "is_cont b"
  shows "encode1 ((a - 0xC0) * 64 + (b - 0x80)) = Some [a, b]"
proof -
  define x y where "x = a - 0xC0" and "y = b - 0x80"
  have a: "a = 0xC0 + x" and b: "b = 0x80 + y" and x: "2 \<le> x" "x < 32" and y: "y < 64"
    using assms by (auto simp: x_def y_def is_cont_def)
  have d: "(x * 64 + y) div 64 = x" and m: "(x * 64 + y) mod 64 = y"
    using y by simp_all
  have lo: "\<not> x * 64 + y < 0x80" using x by simp
  have hi: "x * 64 + y < 0x800" using x y by simp
  show ?thesis
    unfolding x_def [symmetric] y_def [symmetric] encode1_def
    using lo hi d m a b by simp
qed

lemma encode1_three:
  assumes "0xE0 \<le> a" "a \<le> 0xEF" "second3 a b" "is_cont c"
  shows "encode1 ((a - 0xE0) * 4096 + (b - 0x80) * 64 + (c - 0x80)) = Some [a, b, c]"
proof -
  define x y z where "x = a - 0xE0" and "y = b - 0x80" and "z = c - 0x80"
  have a: "a = 0xE0 + x" and b: "b = 0x80 + y" and c: "c = 0x80 + z"
    and x: "x < 16" and y: "y < 64" and z: "z < 64"
    and x0: "x = 0 \<Longrightarrow> 32 \<le> y" and x13: "x = 13 \<Longrightarrow> y < 32"
    using assms by (auto simp: x_def y_def z_def is_cont_def second3_def split: if_splits)
  define cp where "cp = x * 4096 + y * 64 + z"
  have cp64: "cp = (x * 64 + y) * 64 + z" by (simp add: cp_def)
  have m: "cp mod 64 = z" unfolding cp64 by (rule split2(2) [OF z])
  have d: "cp div 64 = x * 64 + y" unfolding cp64 by (rule split2(1) [OF z])
  have dm: "cp div 64 mod 64 = y" unfolding d by (rule split2(2) [OF y])
  have dd: "cp div 4096 = x"
  proof -
    have "cp div 4096 = cp div (64 * 64)" by simp
    also have "\<dots> = cp div 64 div 64" by (rule div_mult2_eq)
    also have "\<dots> = x" unfolding d by (rule split2(1) [OF y])
    finally show ?thesis .
  qed
  have lo: "\<not> cp < 0x800" using x0 [of] y z unfolding cp_def by (cases "x = 0") auto
  have hi: "cp < 0x10000" using x y z unfolding cp_def by simp
  have sur: "\<not> (0xD800 \<le> cp \<and> cp \<le> 0xDFFF)"
    using x13 x y z unfolding cp_def by (cases "x = 13") auto
  have lo': "\<not> cp < 0x80" using lo by simp
  show ?thesis
    unfolding x_def [symmetric] y_def [symmetric] z_def [symmetric] cp_def [symmetric] encode1_def
    using lo lo' hi sur d m dm dd a b c by simp
qed


lemma encode1_four:
  assumes "0xF0 \<le> a" "a \<le> 0xF4" "second4 a b" "is_cont c" "is_cont d"
  shows "encode1 ((a - 0xF0) * 262144 + (b - 0x80) * 4096 + (c - 0x80) * 64 + (d - 0x80))
         = Some [a, b, c, d]"
proof -
  define w x y z where "w = a - 0xF0" and "x = b - 0x80" and "y = c - 0x80" and "z = d - 0x80"
  have a: "a = 0xF0 + w" and b: "b = 0x80 + x" and c: "c = 0x80 + y" and d: "d = 0x80 + z"
    and w: "w < 5" and x: "x < 64" and y: "y < 64" and z: "z < 64"
    and w0: "w = 0 \<Longrightarrow> 16 \<le> x" and w4: "w = 4 \<Longrightarrow> x < 16"
    using assms by (auto simp: w_def x_def y_def z_def is_cont_def second4_def split: if_splits)
  define cp where "cp = w * 262144 + x * 4096 + y * 64 + z"
  have cp64: "cp = ((w * 64 + x) * 64 + y) * 64 + z" by (simp add: cp_def)
  have m: "cp mod 64 = z" unfolding cp64 by (rule split2(2) [OF z])
  have d1: "cp div 64 = (w * 64 + x) * 64 + y" unfolding cp64 by (rule split2(1) [OF z])
  have dm: "cp div 64 mod 64 = y" unfolding d1 by (rule split2(2) [OF y])
  have d2: "cp div 4096 = w * 64 + x"
  proof -
    have "cp div 4096 = cp div (64 * 64)" by simp
    also have "\<dots> = cp div 64 div 64" by (rule div_mult2_eq)
    also have "\<dots> = w * 64 + x" unfolding d1 by (rule split2(1) [OF y])
    finally show ?thesis .
  qed
  have d2m: "cp div 4096 mod 64 = x" unfolding d2 by (rule split2(2) [OF x])
  have d3: "cp div 262144 = w"
  proof -
    have "cp div 262144 = cp div (4096 * 64)" by simp
    also have "\<dots> = cp div 4096 div 64" by (rule div_mult2_eq)
    also have "\<dots> = w" unfolding d2 by (rule split2(1) [OF x])
    finally show ?thesis .
  qed
  have lo: "\<not> cp < 0x10000" using w0 x y z unfolding cp_def by (cases "w = 0") auto
  have hi: "cp \<le> 0x10FFFF" using w4 w x y z unfolding cp_def by (cases "w = 4") auto
  have lo1: "\<not> cp < 0x80" and lo2: "\<not> cp < 0x800" using lo by simp_all
  show ?thesis
    unfolding w_def [symmetric] x_def [symmetric] y_def [symmetric] z_def [symmetric]
      cp_def [symmetric] encode1_def
    using lo lo1 lo2 hi m dm d2m d3 a b c d by simp
qed

lemma decode1_encode1:
  assumes "decode1 bs = Some (cp, r)"
  shows "\<exists>u. encode1 cp = Some u \<and> bs = u @ r"
proof (cases bs)
  case Nil
  with assms show ?thesis by simp
next
  case (Cons a bs')
  consider (one) "a < 0x80"
    | (two) "0xC2 \<le> a" "a \<le> 0xDF"
    | (three) "0xE0 \<le> a" "a \<le> 0xEF"
    | (four) "0xF0 \<le> a" "a \<le> 0xF4"
    | (bad) "\<not> a < 0x80" "\<not> (0xC2 \<le> a \<and> a \<le> 0xDF)" "\<not> (0xE0 \<le> a \<and> a \<le> 0xEF)"
        "\<not> (0xF0 \<le> a \<and> a \<le> 0xF4)"
    by linarith
  then show ?thesis
  proof cases
    case one
    with assms Cons show ?thesis by (simp add: encode1_def)
  next
    case two
    with assms Cons obtain b where "bs' = b # r" "is_cont b" "cp = (a - 0xC0) * 64 + (b - 0x80)"
      by (auto split: list.splits if_splits)
    with two Cons encode1_two [of a b] show ?thesis by simp
  next
    case three
    with assms Cons obtain b c where "bs' = b # c # r" "second3 a b" "is_cont c"
      "cp = (a - 0xE0) * 4096 + (b - 0x80) * 64 + (c - 0x80)"
      by (auto split: list.splits if_splits)
    with three Cons encode1_three [of a b c] show ?thesis by simp
  next
    case four
    with assms Cons obtain b c d where "bs' = b # c # d # r" "second4 a b" "is_cont c" "is_cont d"
      "cp = (a - 0xF0) * 262144 + (b - 0x80) * 4096 + (c - 0x80) * 64 + (d - 0x80)"
      by (auto split: list.splits if_splits)
    with four Cons encode1_four [of a b c d] show ?thesis by simp
  next
    case bad
    with assms Cons show ?thesis by simp
  qed
qed

lemma decode_units_encode_units:
  "decode_units bs = Some s \<Longrightarrow> encode_units s = Some bs"
proof (induction bs arbitrary: s rule: decode_units.induct)
  case (1 bs)
  show ?case
  proof (cases "bs = []")
    case True
    with "1.prems" show ?thesis by (simp add: decode_units.simps)
  next
    case False
    with "1.prems" obtain cp r s' where d: "decode1 bs = Some (cp, r)"
      and r: "decode_units r = Some s'" and s: "s = cp # s'"
      by (subst (asm) decode_units.simps) (auto split: option.splits)
    from decode1_encode1 [OF d] obtain u where u: "encode1 cp = Some u" "bs = u @ r" by blast
    from "1.IH" [OF False d refl r] have "encode_units s' = Some r" .
    with u s show ?thesis by simp
  qed
qed

lemma decode_encode: "decode data = Inr s \<Longrightarrow> encode s = Inr data"
  by (auto simp: decode_def encode_def map_idI dest!: decode_units_encode_units
      split: option.splits)


lemma occurs_append: "occurs old ys \<Longrightarrow> occurs old (xs @ ys)"
  by (induction xs) simp_all

lemma occurs_singleton: "occurs [x] s = (x \<in> set s)"
  by (induction s) auto

lemma replace_absent:
  assumes "old \<noteq> []"
  shows "\<not> occurs old s \<Longrightarrow> replace old new s = s"
proof (induction s)
  case Nil
  with assms show ?case by (simp add: replace.simps)
next
  case (Cons c s)
  then have "take (length old) (c # s) \<noteq> old" and "replace old new s = s" by simp_all
  with assms show ?case by (subst replace.simps) simp
qed

lemma encode_units_set:
  "encode_units s = Some us \<Longrightarrow> 0 \<in> set s \<Longrightarrow> 0 \<in> set us"
proof (induction s arbitrary: us)
  case Nil
  then show ?case by simp
next
  case (Cons cp cps)
  then obtain u us' where u: "encode1 cp = Some u" "encode_units cps = Some us'" "us = u @ us'"
    by (auto split: option.splits)
  show ?case
  proof (cases "cp = 0")
    case True
    with u show ?thesis by (auto simp: encode1_def)
  next
    case False
    with Cons.prems have "0 \<in> set cps" by simp
    with Cons.IH u show ?thesis by simp
  qed
qed

lemma encode_units_slash_zero:
  "encode_units s = Some us \<Longrightarrow> occurs [47, 48] s \<Longrightarrow> occurs [47, 48] us"
proof (induction s arbitrary: us)
  case Nil
  then show ?case by simp
next
  case (Cons cp cps)
  then obtain u us' where u: "encode1 cp = Some u" "encode_units cps = Some us'" "us = u @ us'"
    by (auto split: option.splits)
  from Cons.prems(2) consider (here) rest where "cp = 47" "cps = 48 # rest"
    | (later) "occurs [47, 48] cps"
    by (cases cps) auto
  then show ?case
  proof cases
    case here
    with u show ?thesis by (auto simp: encode1_def split: option.splits)
  next
    case later
    with Cons.IH u have "occurs [47, 48] us'" by simp
    with u show ?thesis by (simp add: occurs_append)
  qed
qed

lemma occurs_map_inj:
  assumes "inj f"
  shows "occurs (map f old) (map f s) = occurs old s"
proof (induction s)
  case Nil
  then show ?case by simp
next
  case (Cons c s)
  have "(take (length old) (map f (c # s)) = map f old) = (take (length old) (c # s) = old)"
    using assms by (metis inj_map_eq_map take_map)
  with Cons show ?case by simp
qed

lemma lit_slash_zero: "lit ''/0'' = [47, 48]"
  by (simp add: lit_def)

lemma unat_blit_slash_zero: "map unat (blit ''/0'') = [47, 48]"
  by (simp add: blit_def)

lemma strip_delimiters_clean:
  assumes d: "decode P = Inr text" and z: "0 \<notin> set P" and sl: "\<not> occurs (blit ''/0'') P"
  shows "strip_delimiters text = text"
proof -
  from d have du: "decode_units (map unat P) = Some text"
    by (auto simp: decode_def split: option.splits)
  then have eu: "encode_units text = Some (map unat P)" by (rule decode_units_encode_units)
  have inj: "inj (unat :: byte \<Rightarrow> nat)" by (rule inj_unsigned)
  from sl have "\<not> occurs (map unat (blit ''/0'')) (map unat P)"
    by (simp add: occurs_map_inj [OF inj])
  then have "\<not> occurs [47, 48] (map unat P)" by (simp add: unat_blit_slash_zero)
  with encode_units_slash_zero [OF eu] have a: "\<not> occurs (lit ''/0'') text"
    by (auto simp: lit_slash_zero)
  from z have "0 \<notin> set (map unat P)" by (auto simp: unat_0_iff)
  with encode_units_set [OF eu] have "0 \<notin> set text" by blast
  then have b: "\<not> occurs [0] text" by (simp add: occurs_singleton)
  from a have "replace (lit ''/0'') [] text = text"
    by (intro replace_absent) (simp_all add: lit_slash_zero)
  with b show ?thesis by (simp add: strip_delimiters_def replace_absent)
qed

lemma decode_hello: "decode (blit ''hello'' @ [0]) = Inr (lit ''hello'' @ [0])"
  by (simp add: decode_def blit_def lit_def decode_units.simps)

lemma strip_hello: "strip_delimiters (lit ''hello'' @ [0]) = lit ''hello''"
  by (simp add: strip_delimiters_def lit_def replace.simps)

lemma encode_hello: "encode (lit ''hello'') = Inr (blit ''hello'')"
  by (simp add: encode_def lit_def blit_def encode1_def)

lemma decode_invalid: "decode [0xFF] = Inl UnicodeDecodeError"
  by (simp add: decode_def decode_units.simps)

section \<open>The serial read loop forwards what it reads\<close>

lemma decode_cases: "decode P = Inl UnicodeDecodeError \<or> (\<exists>str. decode P = Inr str)"
  by (simp add: decode_def split: option.splits)

lemma decode_hi: "decode (blit ''hi'') = Inr (lit ''hi'')"
  by (simp add: decode_def blit_def lit_def decode_units.simps)

lemma decode_a_slash: "decode (blit ''a/0b'') = Inr (lit ''a/0b'')"
  by (simp add: decode_def blit_def lit_def decode_units.simps)

lemma strip_a_slash: "strip_delimiters (lit ''a/0b'') = lit ''ab''"
  by (simp add: strip_delimiters_def lit_def replace.simps)

lemma encode_ab: "encode (lit ''ab'') = Inr (blit ''ab'')"
  by (simp add: encode_def lit_def blit_def encode1_def)

text \<open>
  C1, as stated: every payload without a null byte reaches the socket peer's
  \<^verbatim>\<open>write\<close> unchanged.  It fails: line 183 also removes every \<^verbatim>\<open>/0\<close>, so the payload
  \<^verbatim>\<open>a/0b\<close>, which has no null byte, reaches the socket as \<^verbatim>\<open>ab\<close>.
\<close>

theorem serial_strips_slash_zero:
  "0 \<notin> set (blit ''a/0b'')
   \<and> SerialThread_iteration source_config running (Read_data (blit ''a/0b''))
       = Return () (logged [Socket_send (blit ''ab'')] running)
   \<and> blit ''ab'' \<noteq> blit ''a/0b''"
proof -
  have "0 \<notin> set (blit ''a/0b'')" and "blit ''ab'' \<noteq> blit ''a/0b''"
    by (simp_all add: blit_def)
  moreover have "SerialThread_iteration source_config running (Read_data (blit ''a/0b''))
       = Return () (logged [Socket_send (blit ''ab'')] running)"
    by (simp add: SerialThread_iteration_def SerialThread_forward_def decode_a_slash
        strip_a_slash encode_ab SocketThread_write_def)
      (simp add: running_def blit_def)
  ultimately show ?thesis by simp
qed

text \<open>
  C1, amended: for every payload \<open>P\<close> that is not empty, is well-formed UTF-8 and
  contains neither the null byte nor the two characters \<^verbatim>\<open>/0\<close>, an iteration of the
  serial read loop that reads \<open>P\<close> is a call of the socket peer's \<^verbatim>\<open>write\<close> with
  exactly \<open>P\<close>; and reading \<^verbatim>\<open>b"hello\0"\<close> is a call of that \<^verbatim>\<open>write\<close> with
  \<^verbatim>\<open>b"hello"\<close>.
\<close>

theorem serial_forwards_payload:
  assumes "P \<noteq> []" and "\<not> isl (decode P)" and "0 \<notin> set P"
    and "\<not> occurs (blit ''/0'') P" and "socket_manager s"
  shows "SerialThread_iteration cfg s (Read_data P)
           = and_then (SocketThread_write s P) (\<lambda>n. Return ())
       \<and> SerialThread_iteration cfg s (Read_data (blit ''hello'' @ [0]))
           = and_then (SocketThread_write s (blit ''hello'')) (\<lambda>n. Return ())"
proof
  from assms(2) obtain str where d: "decode P = Inr str"
    using decode_cases [of P] by auto
  from strip_delimiters_clean [OF d assms(3,4)] decode_encode [OF d]
  have "encode (strip_delimiters str) = Inr P" by simp
  with d assms(1,5)
  show "SerialThread_iteration cfg s (Read_data P)
          = and_then (SocketThread_write s P) (\<lambda>n. Return ())"
    by (simp add: SerialThread_iteration_def SerialThread_forward_def)
next
  have "blit ''hello'' @ [0] \<noteq> []" by simp
  with assms(5)
  show "SerialThread_iteration cfg s (Read_data (blit ''hello'' @ [0]))
          = and_then (SocketThread_write s (blit ''hello'')) (\<lambda>n. Return ())"
    by (simp add: SerialThread_iteration_def SerialThread_forward_def decode_hello strip_hello
        encode_hello)
qed

theorem serial_forwards_payload_witness:
  "blit ''hi'' \<noteq> [] \<and> \<not> isl (decode (blit ''hi'')) \<and> 0 \<notin> set (blit ''hi'')
   \<and> \<not> occurs (blit ''/0'') (blit ''hi'') \<and> socket_manager running
   \<and> SerialThread_iteration source_config running (Read_data (blit ''hi''))
       = Return () (logged [Socket_send (blit ''hi'')] running)
   \<and> SerialThread_iteration source_config running (Read_data (blit ''hello'' @ [0]))
       = Return () (logged [Socket_send (blit ''hello'')] running)"
proof -
  have h: "blit ''hi'' \<noteq> []" "\<not> isl (decode (blit ''hi''))" "0 \<notin> set (blit ''hi'')"
    "\<not> occurs (blit ''/0'') (blit ''hi'')" "socket_manager running"
    by (simp_all add: decode_hi) (simp_all add: blit_def running_def)
  have w: "SocketThread_write running d = Return (length d) (logged [Socket_send d] running)" for d
    by (simp add: SocketThread_write_def running_def)
  from serial_forwards_payload [OF h, of source_config] h show ?thesis
    by (simp add: w)
qed

section \<open>Shared facts\<close>

lemma blit_eq_Nil [simp]: "(blit cs = []) = (cs = [])"
  by (simp add: blit_def)

lemma decode_empty: "decode [] = Inr []"
  by (simp add: decode_def decode_units.simps)

lemma decode_DISCONNECT: "decode (blit ''DISCONNECT'') = Inr (lit ''DISCONNECT'')"
  by (simp add: decode_def blit_def lit_def decode_units.simps)

lemma encode_DISCONNECT: "encode (lit ''DISCONNECT'') = Inr (blit ''DISCONNECT'')"
  by (simp add: encode_def lit_def blit_def encode1_def)

lemma encode_hi: "encode (lit ''hi'') = Inr (blit ''hi'')"
  by (simp add: encode_def lit_def blit_def encode1_def)

lemma lit_hi_not_DISCONNECT: "lit ''hi'' \<noteq> lit ''DISCONNECT''"
  by (simp add: lit_def)

lemma running_fields:
  "sock_alive running" "serial_manager running" "ser_alive running" "\<not> ser_lock running"
  "is_open (ser_serial running)" "\<not> sock_lock running" "socket_manager running"
  "sock_socket running = Some \<lparr>sk_timeout = Some 10, sk_connected = True, sk_closed = False\<rparr>"
  "trace running = []" "sock_status running = Started"
  by (simp_all add: running_def)


lemma halted_fields:
  "serial_manager halted" "ser_alive halted" "\<not> ser_lock halted" "is_open (ser_serial halted)"
  "sock_status halted = Finished" "ser_status halted = Started"
  "sock_socket halted = Some \<lparr>sk_timeout = Some 10, sk_connected = True, sk_closed = False\<rparr>"
  "trace halted = []"
  by (simp_all add: halted_def running_def)

lemma SocketThread_loop_not_alive: "\<not> sock_alive s \<Longrightarrow> SocketThread_loop rs s = Return () s"
  by (cases rs) simp_all




section \<open>Stopping twice\<close>

text \<open>
  C2, as stated: a second \<^verbatim>\<open>stop()\<close> after a first one that returned sends no second
  \<^verbatim>\<open>internetDisconnected\<close> frame.  It fails for the socket channel: \<^verbatim>\<open>stop\<close> has no
  memory of having run, and lines 64 and 65 notify the serial peer whenever that peer
  is alive.  The main thread stops the socket channel twice; the serial side receives
  the frame twice.
\<close>

theorem second_stop_notifies_again:
  "trace (state_of (SocketThread_stop MainThread halted))
     = [Serial_write (blit ''internetDisconnected'')]
   \<and> and_then (SocketThread_stop MainThread halted) (\<lambda>u. SocketThread_stop MainThread)
     = Return ()
         (halted\<lparr>sock_socket := Some \<lparr>sk_timeout = Some 10, sk_connected = True,
                                       sk_closed = True\<rparr>,
                  trace := [Serial_write (blit ''internetDisconnected''),
                            Serial_write (blit ''internetDisconnected'')]\<rparr>)"
  by (simp add: SocketThread_stop_def SerialThread_write_def join_def Let_def logged_def
      halted_fields)
    (simp add: halted_def running_def)

text \<open>
  C2, amended: a second \<^verbatim>\<open>stop()\<close> by the same caller, after a first one that
  returned, raises nothing on either channel.  On the serial channel it returns the
  state unchanged, and the first call has sent no frame.  On the socket channel it
  sends one more \<^verbatim>\<open>internetDisconnected\<close> frame when the serial peer is still alive,
  and changes nothing when it is not.
\<close>

theorem stop_twice:
  "(SerialThread_stop caller s = Return () t
      \<longrightarrow> SerialThread_stop caller t = Return () t \<and> trace t = trace s)
   \<and> (SocketThread_stop caller s = Return () u
      \<longrightarrow> SocketThread_stop caller u
            = Return () (if ser_alive u
                         then logged [Serial_write (blit ''internetDisconnected'')] u
                         else u))"
proof
  show "SerialThread_stop caller s = Return () t
      \<longrightarrow> SerialThread_stop caller t = Return () t \<and> trace t = trace s"
    by (auto simp: SerialThread_stop_def join_def split: if_splits)
next
  show "SocketThread_stop caller s = Return () u
      \<longrightarrow> SocketThread_stop caller u
            = Return () (if ser_alive u
                         then logged [Serial_write (blit ''internetDisconnected'')] u
                         else u)"
  proof
    assume a: "SocketThread_stop caller s = Return () u"
    then have sm: "serial_manager s"
      by (auto simp: SocketThread_stop_def Let_def split: if_splits)
    show "SocketThread_stop caller u
            = Return () (if ser_alive u
                         then logged [Serial_write (blit ''internetDisconnected'')] u
                         else u)"
    proof (cases "ser_alive s")
      case True
      with a sm show ?thesis
        by (auto simp: SocketThread_stop_def SerialThread_write_def join_def Let_def logged_def
            split: if_splits option.splits)
    next
      case False
      with a sm show ?thesis
        by (auto simp: SocketThread_stop_def join_def Let_def
            split: if_splits option.splits)
    qed
  qed
qed

theorem stop_twice_witness:
  "SerialThread_stop MainThread halted = Return () (halted\<lparr>ser_alive := False\<rparr>)
   \<and> SerialThread_stop MainThread (halted\<lparr>ser_alive := False\<rparr>)
       = Return () (halted\<lparr>ser_alive := False\<rparr>)
   \<and> SocketThread_stop MainThread (halted\<lparr>ser_alive := False\<rparr>)
       = Return () (halted\<lparr>ser_alive := False,
            sock_socket := Some \<lparr>sk_timeout = Some 10, sk_connected = True, sk_closed = True\<rparr>\<rparr>)
   \<and> SocketThread_stop MainThread (halted\<lparr>ser_alive := False,
            sock_socket := Some \<lparr>sk_timeout = Some 10, sk_connected = True, sk_closed = True\<rparr>\<rparr>)
       = Return () (halted\<lparr>ser_alive := False,
            sock_socket := Some \<lparr>sk_timeout = Some 10, sk_connected = True, sk_closed = True\<rparr>\<rparr>)"
proof -
  have a: "SerialThread_stop MainThread halted = Return () (halted\<lparr>ser_alive := False\<rparr>)"
    by (simp add: SerialThread_stop_def join_def halted_fields)
  have b: "SocketThread_stop MainThread (halted\<lparr>ser_alive := False\<rparr>)
       = Return () (halted\<lparr>ser_alive := False,
            sock_socket := Some \<lparr>sk_timeout = Some 10, sk_connected = True, sk_closed = True\<rparr>\<rparr>)"
    by (simp add: SocketThread_stop_def join_def Let_def halted_fields)
      (simp add: halted_def running_def)
  from stop_twice [where caller = MainThread and s = halted
      and t = "halted\<lparr>ser_alive := False\<rparr>" and u = "halted"]
    stop_twice [where caller = MainThread and s = "halted\<lparr>ser_alive := False\<rparr>"
      and t = "halted"
      and u = "halted\<lparr>ser_alive := False,
            sock_socket := Some \<lparr>sk_timeout = Some 10, sk_connected = True, sk_closed = True\<rparr>\<rparr>"]
    a b
  show ?thesis by (simp add: halted_fields)
qed

section \<open>The socket read loop and \<^verbatim>\<open>DISCONNECT\<close>\<close>

text \<open>
  C3, as stated: data that decodes to \<^verbatim>\<open>DISCONNECT\<close> is not forwarded to the serial
  peer, and every other value is.  It fails: lines 108 and 109 forward whatever was
  decoded before line 113 looks at it, so \<^verbatim>\<open>DISCONNECT\<close> reaches the serial side; and
  the forwarding is guarded by the serial peer's \<^verbatim>\<open>alive\<close>, so \<^verbatim>\<open>hi\<close> is not
  forwarded to a serial peer that is not alive.
\<close>

theorem disconnect_is_forwarded:
  "SocketThread_loop [Recv_data (blit ''DISCONNECT'')] running
     = Return ()
         (running\<lparr>sock_alive := False,
                  trace := [Socket_recv (Some 10), Serial_write (blit ''DISCONNECT'')]\<rparr>)
   \<and> SocketThread_loop [Recv_data (blit ''hi'')] (running\<lparr>ser_alive := False\<rparr>)
     = Waiting (running\<lparr>ser_alive := False, trace := [Socket_recv (Some 10)]\<rparr>)"
  by (simp add: SocketThread_iteration_def SocketThread_forward_def SerialThread_write_def
      decode_DISCONNECT encode_DISCONNECT decode_hi encode_hi lit_hi_not_DISCONNECT
      running_fields logged_def)

text \<open>
  C3, amended: when the socket read loop receives data that is not empty and decodes
  as UTF-8, it forwards the same octets to the serial peer's \<^verbatim>\<open>write\<close> if the serial
  peer is alive and forwards nothing if it is not, the value \<^verbatim>\<open>DISCONNECT\<close> included;
  after \<^verbatim>\<open>DISCONNECT\<close> the loop ends by returning, with \<^verbatim>\<open>alive\<close> false and without
  an \<^verbatim>\<open>internetDisconnected\<close> frame; after any other value it goes on with the next
  read.
\<close>

theorem socket_forwards_then_disconnects:
  assumes "d \<noteq> []" and "decode d = Inr str" and "sock_alive s" and "sock_socket s = Some k"
    and "sk_connected k" and "\<not> sk_closed k" and "serial_manager s" and "\<not> ser_lock s"
    and "is_open (ser_serial s)"
  shows "SocketThread_loop (Recv_data d # rs) s
           = (if str = lit ''DISCONNECT''
              then Return ()
                     (logged (Socket_recv (sk_timeout k) # (if ser_alive s then [Serial_write d] else [])) s
                        \<lparr>sock_alive := False\<rparr>)
              else SocketThread_loop rs
                     (logged (Socket_recv (sk_timeout k) # (if ser_alive s then [Serial_write d] else [])) s))"
proof -
  from decode_encode [OF assms(2)] have e: "encode str = Inr d" .
  let ?s1 = "logged [Socket_recv (sk_timeout k)] s"
  let ?s2 = "logged (Socket_recv (sk_timeout k) # (if ser_alive s then [Serial_write d] else [])) s"
  have w: "(if \<not> serial_manager ?s1 then Raise AttributeError ?s1
            else if ser_alive ?s1 then
              (case encode str of
                 Inl e \<Rightarrow> Raise e ?s1
               | Inr out \<Rightarrow> and_then (SerialThread_write ?s1 out) (\<lambda>n. Return ()))
            else Return () ?s1) = Return () ?s2"
    using assms(7,8,9) e by (simp add: SerialThread_write_def logged_def)
  have it: "SocketThread_iteration s (Recv_data d)
          = Return () (if str = lit ''DISCONNECT'' then ?s2\<lparr>sock_alive := False\<rparr> else ?s2)"
    using assms(1,2,4,5,6)
    by (simp only: SocketThread_iteration_def SocketThread_forward_def w option.case recv.case
        if_False if_True and_then.simps sum.case simp_thms)
  show ?thesis
  proof (cases "str = lit ''DISCONNECT''")
    case True
    with it assms(3) show ?thesis by (simp add: SocketThread_loop_not_alive)
  next
    case False
    with it assms(3) show ?thesis by simp
  qed
qed

theorem socket_forwards_then_disconnects_witness:
  "SocketThread_loop [Recv_data (blit ''DISCONNECT''), Recv_data (blit ''hi'')] running
     = Return ()
         (running\<lparr>sock_alive := False,
                  trace := [Socket_recv (Some 10), Serial_write (blit ''DISCONNECT'')]\<rparr>)
   \<and> SocketThread_loop [Recv_data (blit ''hi'')] running
     = Waiting (running\<lparr>trace := [Socket_recv (Some 10), Serial_write (blit ''hi'')]\<rparr>)"
proof
  have n: "blit ''DISCONNECT'' \<noteq> []" "blit ''hi'' \<noteq> []" by (simp_all add: blit_def)
  have k: "sk_connected \<lparr>sk_timeout = Some 10, sk_connected = True, sk_closed = False\<rparr>"
    "\<not> sk_closed \<lparr>sk_timeout = Some 10, sk_connected = True, sk_closed = False\<rparr>"
    by simp_all
  note a = socket_forwards_then_disconnects [OF n(1) decode_DISCONNECT running_fields(1)
      running_fields(8) k running_fields(2,4,5), where rs = "[Recv_data (blit ''hi'')]"]
  note b = socket_forwards_then_disconnects [OF n(2) decode_hi running_fields(1)
      running_fields(8) k running_fields(2,4,5), where rs = "[]"]
  show "SocketThread_loop [Recv_data (blit ''DISCONNECT''), Recv_data (blit ''hi'')] running
     = Return ()
         (running\<lparr>sock_alive := False,
                  trace := [Socket_recv (Some 10), Serial_write (blit ''DISCONNECT'')]\<rparr>)"
    unfolding a by (simp add: running_fields logged_def)
  show "SocketThread_loop [Recv_data (blit ''hi'')] running
     = Waiting (running\<lparr>trace := [Socket_recv (Some 10), Serial_write (blit ''hi'')]\<rparr>)"
    unfolding b by (simp add: lit_hi_not_DISCONNECT running_fields logged_def)
qed

section \<open>Writing does not look at \<^verbatim>\<open>alive\<close>\<close>

text \<open>
  C4, as stated: a \<^verbatim>\<open>write\<close> on a channel whose \<^verbatim>\<open>alive\<close> is false fails without
  touching the medium.  It fails: neither \<^verbatim>\<open>write\<close> reads \<^verbatim>\<open>alive\<close>, and the program
  has no error of that kind.  With \<^verbatim>\<open>alive\<close> false both writes reach the medium and
  return the count.
\<close>

theorem write_while_not_alive:
  "\<not> ser_alive (running\<lparr>ser_alive := False\<rparr>)
   \<and> SerialThread_write (running\<lparr>ser_alive := False\<rparr>) (blit ''hi'')
       = Return 2 (logged [Serial_write (blit ''hi'')] (running\<lparr>ser_alive := False\<rparr>))
   \<and> \<not> sock_alive (running\<lparr>sock_alive := False\<rparr>)
   \<and> SocketThread_write (running\<lparr>sock_alive := False\<rparr>) (blit ''hi'')
       = Return 2 (logged [Socket_send (blit ''hi'')] (running\<lparr>sock_alive := False\<rparr>))"
  by (simp add: SerialThread_write_def SocketThread_write_def running_def blit_def)

text \<open>
  C4, amended: a channel's \<^verbatim>\<open>write\<close> does not depend on \<^verbatim>\<open>alive\<close>.  Whatever
  \<^verbatim>\<open>alive\<close> is, with the lock free and the medium usable (the port open; the socket
  connected and not closed) it hands the data to the medium and returns their length;
  while another thread holds the channel's lock it waits and the medium is not
  touched.
\<close>

theorem write_ignores_alive:
  "(\<not> ser_lock s \<and> is_open (ser_serial s)
      \<longrightarrow> SerialThread_write (s\<lparr>ser_alive := a\<rparr>) data
            = Return (length data) (logged [Serial_write data] (s\<lparr>ser_alive := a\<rparr>)))
   \<and> (\<not> sock_lock s \<and> sock_socket s = Some k \<and> sk_connected k \<and> \<not> sk_closed k
      \<longrightarrow> SocketThread_write (s\<lparr>sock_alive := a\<rparr>) data
            = Return (length data) (logged [Socket_send data] (s\<lparr>sock_alive := a\<rparr>)))
   \<and> (ser_lock s \<longrightarrow> SerialThread_write (s\<lparr>ser_alive := a\<rparr>) data = Waiting (s\<lparr>ser_alive := a\<rparr>))
   \<and> (sock_lock s
      \<longrightarrow> SocketThread_write (s\<lparr>sock_alive := a\<rparr>) data = Waiting (s\<lparr>sock_alive := a\<rparr>))"
  by (simp add: SerialThread_write_def SocketThread_write_def)

theorem write_ignores_alive_witness:
  "\<not> ser_lock running \<and> is_open (ser_serial running) \<and> \<not> sock_lock running
   \<and> SerialThread_write (running\<lparr>ser_alive := False\<rparr>) (blit ''hi'')
       = Return 2 (logged [Serial_write (blit ''hi'')] (running\<lparr>ser_alive := False\<rparr>))
   \<and> SocketThread_write (running\<lparr>sock_alive := False\<rparr>) (blit ''hi'')
       = Return 2 (logged [Socket_send (blit ''hi'')] (running\<lparr>sock_alive := False\<rparr>))
   \<and> ser_lock (running\<lparr>ser_lock := True\<rparr>)
   \<and> SerialThread_write (running\<lparr>ser_lock := True\<rparr>) (blit ''hi'')
       = Waiting (running\<lparr>ser_lock := True\<rparr>)
   \<and> sock_lock (running\<lparr>sock_lock := True\<rparr>)
   \<and> SocketThread_write (running\<lparr>sock_lock := True\<rparr>) (blit ''hi'')
       = Waiting (running\<lparr>sock_lock := True\<rparr>)"
proof -
  have r: "\<not> ser_lock running" "is_open (ser_serial running)" "\<not> sock_lock running"
    "sock_socket running = Some \<lparr>sk_timeout = Some 10, sk_connected = True, sk_closed = False\<rparr>"
    "ser_alive running" "sock_alive running"
    by (simp_all add: running_def)
  have l: "length (blit ''hi'') = 2" by (simp add: blit_def)
  have u: "running\<lparr>ser_lock := True, ser_alive := True\<rparr> = running\<lparr>ser_lock := True\<rparr>"
    "running\<lparr>sock_lock := True, sock_alive := True\<rparr> = running\<lparr>sock_lock := True\<rparr>"
    by (simp_all add: running_def)
  from write_ignores_alive [where s = running and a = False and data = "blit ''hi''"
      and k = "\<lparr>sk_timeout = Some 10, sk_connected = True, sk_closed = False\<rparr>"]
    write_ignores_alive [where s = "running\<lparr>ser_lock := True\<rparr>" and a = True
      and data = "blit ''hi''"]
    write_ignores_alive [where s = "running\<lparr>sock_lock := True\<rparr>" and a = True
      and data = "blit ''hi''"]
    r l u
  show ?thesis by simp
qed

section \<open>An empty read from the socket\<close>

text \<open>
  C5 says that after an empty read \<^verbatim>\<open>stop()\<close> is called once, exactly one
  \<^verbatim>\<open>internetDisconnected\<close> frame is sent and the loop ends without raising.  On an
  empty read from its connected socket (the serial peer wired, its port open and its
  lock free) the socket thread does call \<^verbatim>\<open>stop()\<close> once (lines 98 to 100), which sets
  \<^verbatim>\<open>alive\<close> to false, sends the frame if the serial peer is alive and closes the
  socket; but \<^verbatim>\<open>stop()\<close> ends with \<^verbatim>\<open>self.join()\<close> (line 69), here called by the
  socket thread on itself, which raises \<^verbatim>\<open>RuntimeError\<close>.  Nothing catches it: the loop
  always ends by raising, whatever reads would follow.
\<close>

theorem empty_read_ends_by_raising:
  assumes "sock_alive s" and "sock_socket s = Some k" and "sk_connected k" and "\<not> sk_closed k"
    and "serial_manager s" and "\<not> ser_lock s" and "is_open (ser_serial s)"
  shows "SocketThread_loop (Recv_data [] # rs) s
           = Raise RuntimeError
               (logged (Socket_recv (sk_timeout k)
                        # (if ser_alive s then [Serial_write (blit ''internetDisconnected'')] else [])) s
                  \<lparr>sock_alive := False, sock_socket := Some (k\<lparr>sk_closed := True\<rparr>)\<rparr>)"
  using assms
  by (simp add: SocketThread_iteration_def SocketThread_forward_def SocketThread_stop_def
      SerialThread_write_def join_def Let_def logged_def)

theorem empty_read_ends_by_raising_witness:
  "SocketThread_loop [Recv_data [], Recv_data (blit ''hi'')] running
     = Raise RuntimeError
         (running\<lparr>sock_alive := False,
                  sock_socket := Some \<lparr>sk_timeout = Some 10, sk_connected = True,
                                       sk_closed = True\<rparr>,
                  trace := [Socket_recv (Some 10), Serial_write (blit ''internetDisconnected'')]\<rparr>)"
proof -
  have k: "sk_connected \<lparr>sk_timeout = Some 10, sk_connected = True, sk_closed = False\<rparr>"
    "\<not> sk_closed \<lparr>sk_timeout = Some 10, sk_connected = True, sk_closed = False\<rparr>"
    by simp_all
  note a = empty_read_ends_by_raising [OF running_fields(1) running_fields(8) k
      running_fields(2,4,5), where rs = "[Recv_data (blit ''hi'')]"]
  show ?thesis unfolding a by (simp add: running_fields logged_def)
qed

section \<open>Data that is not UTF-8\<close>

text \<open>
  C6 says that data which is not valid UTF-8 is logged and dropped and that the read
  loop continues.  In both read loops \<^verbatim>\<open>decode()\<close> stands outside every \<^verbatim>\<open>try\<close>
  (lines 183 and 101): for data that does not decode, each loop ends by raising
  \<^verbatim>\<open>UnicodeDecodeError\<close> and reads nothing more.
\<close>

theorem undecodable_data_ends_the_loop:
  assumes "isl (decode data)"
  shows "(ser_alive s \<and> is_open (ser_serial s)
            \<longrightarrow> SerialThread_run cfg (Read_data data # rs) s = Raise UnicodeDecodeError s)
       \<and> (sock_alive s \<and> sock_socket s = Some k \<and> sk_connected k \<and> \<not> sk_closed k
            \<longrightarrow> SocketThread_loop (Recv_data data # rs') s
                  = Raise UnicodeDecodeError (logged [Socket_recv (sk_timeout k)] s))"
proof -
  from assms have d: "decode data = Inl UnicodeDecodeError"
    using decode_cases [of data] by auto
  from assms have n: "data \<noteq> []" by (auto simp: decode_empty)
  from d n show ?thesis
    by (simp add: SerialThread_iteration_def SerialThread_forward_def
        SocketThread_iteration_def SocketThread_forward_def)
qed

theorem undecodable_data_ends_the_loop_witness:
  "isl (decode [0xFF])
   \<and> SerialThread_run source_config [Read_data [0xFF], Read_data (blit ''hi'')] running
       = Raise UnicodeDecodeError running
   \<and> SocketThread_loop [Recv_data [0xFF], Recv_data (blit ''hi'')] running
       = Raise UnicodeDecodeError (logged [Socket_recv (Some 10)] running)"
proof -
  have h: "isl (decode [0xFF])" by (simp add: decode_invalid)
  have r: "ser_alive running" "is_open (ser_serial running)" "sock_alive running"
    "sock_socket running = Some \<lparr>sk_timeout = Some 10, sk_connected = True, sk_closed = False\<rparr>"
    by (simp_all add: running_def)
  from undecodable_data_ends_the_loop [OF h, where s = running
      and k = "\<lparr>sk_timeout = Some 10, sk_connected = True, sk_closed = False\<rparr>"
      and cfg = source_config and rs = "[Read_data (blit ''hi'')]"
      and rs' = "[Recv_data (blit ''hi'')]"] h r
  show ?thesis by simp
qed

section \<open>The serial read loop writes to the socket peer without asking\<close>





section \<open>Reconnecting the serial port\<close>

lemma calculator_recognised: "find recognised [calculator] = Some calculator"
  by (simp add: recognised_def calculator_def)

lemma find_serial_port_round:
  assumes "find recognised ports = Some p"
  shows "find_serial_port (replicate m [] @ [ports]) s
           = Return p (logged (concat (replicate (Suc m) [Sleep 1, Comports])) s)"
proof (induction m arbitrary: s)
  case 0
  with assms show ?case by simp
next
  case (Suc m)
  have "logged (concat (replicate (Suc m) [Sleep 1, Comports])) (logged [Sleep 1, Comports] s)
          = logged (concat (replicate (Suc (Suc m)) [Sleep 1, Comports])) s"
    by (simp add: logged_def)
  with Suc show ?case by simp
qed

lemma reconnect_failed_round:
  assumes "\<not> MANUAL_PORT cfg" and "find recognised ports = Some p"
  shows "reconnect cfg (retry_round m ports False # later) s
           = reconnect cfg later (logged (round_events m p False) s)"
proof -
  have "logged [Open_serial (device p) False]
          (logged (concat (replicate (Suc m) [Sleep 1, Comports])) (logged [Sleep 1] s))
        = logged (round_events m p False) s"
    by (simp add: logged_def round_events_def)
  with assms show ?thesis
    by (simp add: retry_round_def find_serial_port_round del: replicate.simps)
qed

lemma reconnect_good_round:
  assumes "\<not> MANUAL_PORT cfg" and "find recognised ports = Some p" and "\<not> ser_lock s"
  shows "reconnect cfg (retry_round m ports True # later) s
           = Return ()
               (logged (round_events m p True @ [Serial_write bridgeConnected])
                  (s\<lparr>ser_serial := \<lparr>is_open = True, name = device p\<rparr>\<rparr>))"
proof -
  have "logged [Serial_write bridgeConnected]
          (logged [Open_serial (device p) True]
            (logged (concat (replicate (Suc m) [Sleep 1, Comports])) (logged [Sleep 1] s)
               \<lparr>ser_serial := \<lparr>is_open = True, name = device p\<rparr>\<rparr>))
        = logged (round_events m p True @ [Serial_write bridgeConnected])
            (s\<lparr>ser_serial := \<lparr>is_open = True, name = device p\<rparr>\<rparr>)"
    by (simp add: logged_def round_events_def)
  with assms show ?thesis
    by (simp add: retry_round_def find_serial_port_round SerialThread_write_def logged_def
        del: replicate.simps)
qed

lemma reconnect_failed_rounds:
  assumes "\<not> MANUAL_PORT cfg" and "find recognised ports = Some p"
  shows "reconnect cfg (replicate n (retry_round m ports False) @ later) s
           = reconnect cfg later (logged (concat (replicate n (round_events m p False))) s)"
proof (induction n arbitrary: s)
  case 0
  show ?case by (simp add: logged_def)
next
  case (Suc n)
  have "logged (concat (replicate n (round_events m p False))) (logged (round_events m p False) s)
          = logged (concat (replicate (Suc n) (round_events m p False))) s"
    by (simp add: logged_def)
  with Suc reconnect_failed_round [OF assms] show ?case by simp
qed

lemma SerialThread_run_not_alive:
  "\<not> ser_alive s \<Longrightarrow> SerialThread_run cfg rs s = Return () (s\<lparr>ser_alive := False\<rparr>)"
  by (cases rs) simp_all

text \<open>
  C7: when \<^verbatim>\<open>read\<close> fails and reconnecting is enabled (with \<^verbatim>\<open>MANUAL_PORT\<close> off, as in
  the source), the serial channel retries without bound.  Each round sleeps one second
  (line 164), runs \<^verbatim>\<open>find_serial_port\<close> again (which polls \<^verbatim>\<open>comports()\<close> once a second
  until the device shows) and opens the port.  After \<open>n\<close> rounds in which the port
  does not open and one in which it does, the \<^verbatim>\<open>bridgeConnected\<close> frame has been
  written to the new port and the read loop goes on with the next read; as long as
  every round fails the loop is still retrying, for every \<open>n\<close>.  With reconnecting
  disabled the failure sets \<^verbatim>\<open>alive\<close> to false and the read loop returns.
\<close>

theorem serial_reconnects:
  assumes "\<not> MANUAL_PORT cfg" and "find recognised ports = Some p"
    and "ser_alive s" and "is_open (ser_serial s)" and "\<not> ser_lock s"
  shows "(ENABLE_RECONNECT cfg \<longrightarrow>
            SerialThread_run cfg
                (Read_error (replicate n (retry_round m ports False) @ retry_round m ports True # later) # rs) s
              = SerialThread_run cfg rs
                  (logged (concat (replicate n (round_events m p False))
                           @ round_events m p True @ [Serial_write bridgeConnected])
                     (s\<lparr>ser_serial := \<lparr>is_open = True, name = device p\<rparr>\<rparr>))
          \<and> SerialThread_run cfg (Read_error (replicate n (retry_round m ports False)) # rs) s
              = Waiting (logged (concat (replicate n (round_events m p False))) s))
       \<and> (\<not> ENABLE_RECONNECT cfg \<longrightarrow>
            SerialThread_run cfg (Read_error rounds # rs) s = Return () (s\<lparr>ser_alive := False\<rparr>))"
proof -
  have l: "ser_lock (logged evs s) = ser_lock s" for evs by (simp add: logged_def)
  have a: "reconnect cfg (replicate n (retry_round m ports False) @ retry_round m ports True # later) s
             = Return ()
                 (logged (concat (replicate n (round_events m p False))
                           @ round_events m p True @ [Serial_write bridgeConnected])
                     (s\<lparr>ser_serial := \<lparr>is_open = True, name = device p\<rparr>\<rparr>))"
    unfolding reconnect_failed_rounds [OF assms(1,2)]
    using assms(5) by (subst reconnect_good_round [OF assms(1,2)]) (simp_all add: logged_def)
  have b: "reconnect cfg (replicate n (retry_round m ports False)) s
             = Waiting (logged (concat (replicate n (round_events m p False))) s)"
    using reconnect_failed_rounds [OF assms(1,2), where later = "[]"] by simp
  from a b assms(3,4) show ?thesis
    by (simp add: SerialThread_iteration_def SerialThread_run_not_alive)
qed

theorem serial_reconnects_witness:
  "\<not> MANUAL_PORT source_config \<and> ENABLE_RECONNECT source_config
   \<and> find recognised [calculator] = Some calculator
   \<and> ser_alive running \<and> is_open (ser_serial running) \<and> \<not> ser_lock running
   \<and> SerialThread_run source_config
         [Read_error (replicate 2 (retry_round 1 [calculator] False)
                      @ [retry_round 1 [calculator] True])] running
       = Waiting
           (running\<lparr>trace :=
              [Sleep 1, Sleep 1, Comports, Sleep 1, Comports, Open_serial ''COM3'' False,
               Sleep 1, Sleep 1, Comports, Sleep 1, Comports, Open_serial ''COM3'' False,
               Sleep 1, Sleep 1, Comports, Sleep 1, Comports, Open_serial ''COM3'' True,
               Serial_write bridgeConnected]\<rparr>)
   \<and> SerialThread_run (source_config\<lparr>ENABLE_RECONNECT := False\<rparr>)
         [Read_error [], Read_data (blit ''hi'')] running
       = Return () (running\<lparr>ser_alive := False\<rparr>)"
proof -
  have c: "\<not> MANUAL_PORT source_config" "ENABLE_RECONNECT source_config"
    "\<not> MANUAL_PORT (source_config\<lparr>ENABLE_RECONNECT := False\<rparr>)"
    "\<not> ENABLE_RECONNECT (source_config\<lparr>ENABLE_RECONNECT := False\<rparr>)"
    by (simp_all add: source_config_def)
  note r = running_fields(3,5,4)
  note a = serial_reconnects [OF c(1) calculator_recognised r, where n = 2 and m = 1
      and later = "[]" and rs = "[]", THEN conjunct1, THEN mp, OF c(2), THEN conjunct1]
  note b = serial_reconnects [OF c(3) calculator_recognised r, where rounds = "[]"
      and rs = "[Read_data (blit ''hi'')]", THEN conjunct2, THEN mp, OF c(4)]
  have e: "SerialThread_run source_config
         [Read_error (replicate 2 (retry_round 1 [calculator] False)
                      @ [retry_round 1 [calculator] True])] running
       = Waiting
           (running\<lparr>trace :=
              [Sleep 1, Sleep 1, Comports, Sleep 1, Comports, Open_serial ''COM3'' False,
               Sleep 1, Sleep 1, Comports, Sleep 1, Comports, Open_serial ''COM3'' False,
               Sleep 1, Sleep 1, Comports, Sleep 1, Comports, Open_serial ''COM3'' True,
               Serial_write bridgeConnected]\<rparr>)"
    unfolding a
    by (simp add: logged_def round_events_def numeral_2_eq_2 calculator_def running_def)
  from c(1,2) calculator_recognised r e b show ?thesis by simp
qed

section \<open>The waits of the socket's polls\<close>

lemma recv_timeouts_append: "recv_timeouts (xs @ ys) = recv_timeouts xs @ recv_timeouts ys"
  by (induction xs rule: recv_timeouts.induct) simp_all

lemma and_then_state:
  assumes "P (state_of r)" and "\<And>v s. P s \<Longrightarrow> P (state_of (f v s))"
  shows "P (state_of (and_then r f))"
  using assms by (cases r) simp_all

lemma polls_SerialThread_write:
  "polls_wait_10 s \<Longrightarrow> polls_wait_10 (state_of (SerialThread_write s d))"
  by (simp add: SerialThread_write_def polls_wait_10_def logged_def recv_timeouts_append)

lemma polls_SocketThread_stop:
  assumes "polls_wait_10 s"
  shows "polls_wait_10 (state_of (SocketThread_stop c s))"
proof -
  have a: "polls_wait_10 (s\<lparr>sock_alive := False\<rparr>)"
    using assms by (simp add: polls_wait_10_def)
  have b: "polls_wait_10 (state_of
             (if \<not> serial_manager (s\<lparr>sock_alive := False\<rparr>)
              then Raise AttributeError (s\<lparr>sock_alive := False\<rparr>)
              else if ser_alive (s\<lparr>sock_alive := False\<rparr>)
                then and_then (SerialThread_write (s\<lparr>sock_alive := False\<rparr>)
                                 (blit ''internetDisconnected'')) (\<lambda>n. Return ())
                else Return () (s\<lparr>sock_alive := False\<rparr>)))"
    using a by (auto intro!: and_then_state [where P = polls_wait_10] polls_SerialThread_write)
  show ?thesis
    unfolding SocketThread_stop_def Let_def
  proof (rule and_then_state [where P = polls_wait_10, OF b])
    fix v :: unit and t
    assume "polls_wait_10 t"
    then show "polls_wait_10 (state_of (case sock_socket t of
                   None \<Rightarrow> Raise AttributeError t
                 | Some k \<Rightarrow>
                     join c SocketThread (sock_status t) False
                       (t\<lparr>sock_socket := Some (k\<lparr>sk_closed := True\<rparr>)\<rparr>)))"
      by (auto simp: polls_wait_10_def join_def split: option.splits)
  qed
qed

lemma polls_SocketThread_forward:
  assumes "polls_wait_10 s"
  shows "polls_wait_10 (state_of (SocketThread_forward s d))"
  unfolding SocketThread_forward_def
proof (rule and_then_state [where P = polls_wait_10])
  show "polls_wait_10 (state_of (if d = [] then SocketThread_stop SocketThread s else Return () s))"
    using assms by (simp add: polls_SocketThread_stop)
next
  fix u :: unit and t
  assume t: "polls_wait_10 t"
  have k: "polls_wait_10 (t\<lparr>sock_alive := False\<rparr>)" if "polls_wait_10 t" for t
    using that by (simp add: polls_wait_10_def)
  show "polls_wait_10 (state_of (case decode d of
            Inl e \<Rightarrow> Raise e t
          | Inr text \<Rightarrow>
              and_then
                (if \<not> serial_manager t then Raise AttributeError t
                 else if ser_alive t then
                   (case encode text of
                      Inl e \<Rightarrow> Raise e t
                    | Inr out \<Rightarrow> and_then (SerialThread_write t out) (\<lambda>n. Return ()))
                 else Return () t)
                (\<lambda>u s2.
                   Return () (if text = lit ''DISCONNECT'' then s2\<lparr>sock_alive := False\<rparr> else s2))))"
    using t
    by (auto split: sum.splits
        intro!: and_then_state [where P = polls_wait_10] polls_SerialThread_write k)
qed

lemma polls_logged_recv:
  "polls_wait_10 s \<Longrightarrow> sock_socket s = Some k
     \<Longrightarrow> polls_wait_10 (logged [Socket_recv (sk_timeout k)] s)"
  by (simp add: polls_wait_10_def logged_def recv_timeouts_append)

lemma polls_SocketThread_iteration:
  assumes "polls_wait_10 s"
  shows "polls_wait_10 (state_of (SocketThread_iteration s r))"
proof (cases "sock_socket s")
  case None
  with assms show ?thesis
    by (auto simp: SocketThread_iteration_def
        intro!: and_then_state [where P = polls_wait_10] polls_SocketThread_stop
          polls_SocketThread_forward)
next
  case (Some k)
  note p = polls_logged_recv [OF assms Some]
  from assms Some p show ?thesis
    by (cases r)
      (auto simp: SocketThread_iteration_def
        intro!: and_then_state [where P = polls_wait_10] polls_SocketThread_stop
          polls_SocketThread_forward)
qed

lemma polls_SocketThread_loop:
  "polls_wait_10 s \<Longrightarrow> polls_wait_10 (state_of (SocketThread_loop rs s))"
proof (induction rs arbitrary: s)
  case Nil
  then show ?case by simp
next
  case (Cons r rs)
  show ?case
  proof (cases "sock_alive s")
    case True
    have "polls_wait_10 (state_of (and_then (SocketThread_iteration s r) (\<lambda>u. SocketThread_loop rs)))"
      by (rule and_then_state [where P = polls_wait_10])
        (simp_all add: polls_SocketThread_iteration Cons)
    with True show ?thesis by simp
  next
    case False
    with Cons.prems show ?thesis by simp
  qed
qed

text \<open>
  C8, as stated: once the connection stands, every poll of the socket waits at most
  0.1 time-units.  It fails: the socket thread sets one timeout, 10, in line 78 before
  it connects, and never another; the 0.1 of line 239 belongs to \<^verbatim>\<open>receive_response\<close>,
  which the bridge does not call.  Two polls of the bridge wait 10 each.
\<close>

theorem socket_polls_do_not_wait_a_tenth:
  "recv_timeouts (trace (state_of (SocketThread_run True [Recv_timeout, Recv_timeout] wired)))
     = [Some 10, Some 10]
   \<and> Some (10 :: rat) \<noteq> Some (1 / 10)"
  by (simp add: SocketThread_run_def SerialThread_write_def SocketThread_iteration_def
      new_socket_def logged_def wired_def main_program_def constructed_def)

text \<open>
  C8, amended: in a run of the socket thread every poll of the socket waits at most
  the 10 time-units set in line 78, the bound of the connect as well (if every earlier
  poll in the trace did, every poll after the run did); and a timeout with no data is
  no error: the loop goes on with the next poll.
\<close>

theorem socket_polls_wait_ten:
  assumes "list_all (\<lambda>t. t = Some 10) (recv_timeouts (trace s))"
  shows "list_all (\<lambda>t. t = Some 10)
           (recv_timeouts (trace (state_of (SocketThread_run connects rs s))))
       \<and> (sock_alive u \<and> sock_socket u = Some k \<and> sk_connected k \<and> \<not> sk_closed k
            \<longrightarrow> SocketThread_loop (Recv_timeout # rs') u
                  = SocketThread_loop rs' (logged [Socket_recv (sk_timeout k)] u))"
proof
  let ?k = "new_socket\<lparr>sk_timeout := Some 10, sk_connected := True\<rparr>"
  let ?s2 = "s\<lparr>sock_socket := Some ?k, sock_alive := True\<rparr>"
  have p2: "polls_wait_10 ?s2"
    using assms by (simp add: polls_wait_10_def)
  have w: "polls_wait_10 (state_of (SerialThread_write ?s2 bridgeConnected))"
    by (rule polls_SerialThread_write [OF p2])
  have "polls_wait_10 (state_of (and_then (SerialThread_write ?s2 bridgeConnected)
                                   (\<lambda>n. SocketThread_loop rs)))"
    by (rule and_then_state [where P = polls_wait_10, OF w]) (rule polls_SocketThread_loop)
  moreover have "polls_wait_10 (s\<lparr>sock_socket := Some (new_socket\<lparr>sk_timeout := Some 10\<rparr>)\<rparr>)"
    using assms by (simp add: polls_wait_10_def)
  moreover have "polls_wait_10 s'" if "list_all (\<lambda>t. t = Some 10) (recv_timeouts (trace s'))"
    "sock_socket s' = None" for s'
    using that by (simp add: polls_wait_10_def)
  ultimately have "polls_wait_10 (state_of (SocketThread_run connects rs s))
      \<or> state_of (SocketThread_run connects rs s) = s"
    by (auto simp: SocketThread_run_def Let_def)
  with assms
  show "list_all (\<lambda>t. t = Some 10)
          (recv_timeouts (trace (state_of (SocketThread_run connects rs s))))"
    by (auto simp: polls_wait_10_def)
next
  show "sock_alive u \<and> sock_socket u = Some k \<and> sk_connected k \<and> \<not> sk_closed k
            \<longrightarrow> SocketThread_loop (Recv_timeout # rs') u
                  = SocketThread_loop rs' (logged [Socket_recv (sk_timeout k)] u)"
    by (simp add: SocketThread_iteration_def)
qed

theorem socket_polls_wait_ten_witness:
  "list_all (\<lambda>t. t = Some 10) (recv_timeouts (trace wired))
   \<and> list_all (\<lambda>t. t = Some 10)
        (recv_timeouts (trace (state_of (SocketThread_run True [Recv_timeout, Recv_timeout] wired))))
   \<and> SocketThread_loop [Recv_timeout] running = Waiting (logged [Socket_recv (Some 10)] running)"
proof -
  have h: "list_all (\<lambda>t. t = Some 10) (recv_timeouts (trace wired))"
    by (simp add: wired_def main_program_def constructed_def)
  have r: "sock_alive running \<and> sock_socket running
             = Some \<lparr>sk_timeout = Some 10, sk_connected = True, sk_closed = False\<rparr>
           \<and> sk_connected \<lparr>sk_timeout = Some 10, sk_connected = True, sk_closed = False\<rparr>
           \<and> \<not> sk_closed \<lparr>sk_timeout = Some 10, sk_connected = True, sk_closed = False\<rparr>"
    by (simp add: running_fields)
  note a = socket_polls_wait_ten [OF h, where connects = True
      and rs = "[Recv_timeout, Recv_timeout]", THEN conjunct1]
  note b = socket_polls_wait_ten [OF h, where u = running and rs' = "[]"
      and k = "\<lparr>sk_timeout = Some 10, sk_connected = True, sk_closed = False\<rparr>",
      THEN conjunct2, THEN mp, OF r]
  have c: "SocketThread_loop [Recv_timeout] running = Waiting (logged [Socket_recv (Some 10)] running)"
    unfolding b by (simp add: running_fields logged_def)
  from h a c show ?thesis by simp
qed

section \<open>The first write of the socket thread\<close>

lemma same_wiring_logged [simp]: "same_wiring s (logged evs t) = same_wiring s t"
  by (simp add: same_wiring_def logged_def)

lemma keeps_SerialThread_write:
  "same_wiring s0 s \<Longrightarrow> same_wiring s0 (state_of (SerialThread_write s d))"
  by (simp add: SerialThread_write_def)

lemma keeps_SocketThread_write:
  "same_wiring s0 s \<Longrightarrow> same_wiring s0 (state_of (SocketThread_write s d))"
  by (simp add: SocketThread_write_def split: option.splits)

lemma keeps_SocketThread_stop:
  assumes "same_wiring s0 s"
  shows "same_wiring s0 (state_of (SocketThread_stop c s))"
proof -
  from assms have a: "same_wiring s0 (s\<lparr>sock_alive := False\<rparr>)"
    by (simp add: same_wiring_def)
  show ?thesis
    unfolding SocketThread_stop_def Let_def
  proof (rule and_then_state [where P = "same_wiring s0"])
    show "same_wiring s0 (state_of
             (if \<not> serial_manager (s\<lparr>sock_alive := False\<rparr>)
              then Raise AttributeError (s\<lparr>sock_alive := False\<rparr>)
              else if ser_alive (s\<lparr>sock_alive := False\<rparr>)
                then and_then (SerialThread_write (s\<lparr>sock_alive := False\<rparr>)
                                 (blit ''internetDisconnected'')) (\<lambda>n. Return ())
                else Return () (s\<lparr>sock_alive := False\<rparr>)))"
      using a
      by (auto intro!: and_then_state [where P = "same_wiring s0"] keeps_SerialThread_write)
  next
    fix v :: unit and t
    assume "same_wiring s0 t"
    then show "same_wiring s0 (state_of (case sock_socket t of
                   None \<Rightarrow> Raise AttributeError t
                 | Some k \<Rightarrow>
                     join c SocketThread (sock_status t) False
                       (t\<lparr>sock_socket := Some (k\<lparr>sk_closed := True\<rparr>)\<rparr>)))"
      by (auto simp: same_wiring_def join_def split: option.splits)
  qed
qed

lemma keeps_SocketThread_forward:
  assumes "same_wiring s0 s"
  shows "same_wiring s0 (state_of (SocketThread_forward s d))"
  unfolding SocketThread_forward_def
proof (rule and_then_state [where P = "same_wiring s0"])
  show "same_wiring s0 (state_of (if d = [] then SocketThread_stop SocketThread s else Return () s))"
    using assms by (simp add: keeps_SocketThread_stop)
next
  fix u :: unit and t
  assume t: "same_wiring s0 t"
  have k: "same_wiring s0 (t\<lparr>sock_alive := False\<rparr>)" if "same_wiring s0 t" for t
    using that by (simp add: same_wiring_def)
  show "same_wiring s0 (state_of (case decode d of
            Inl e \<Rightarrow> Raise e t
          | Inr text \<Rightarrow>
              and_then
                (if \<not> serial_manager t then Raise AttributeError t
                 else if ser_alive t then
                   (case encode text of
                      Inl e \<Rightarrow> Raise e t
                    | Inr out \<Rightarrow> and_then (SerialThread_write t out) (\<lambda>n. Return ()))
                 else Return () t)
                (\<lambda>u s2.
                   Return () (if text = lit ''DISCONNECT'' then s2\<lparr>sock_alive := False\<rparr> else s2))))"
    using t
    by (auto split: sum.splits
        intro!: and_then_state [where P = "same_wiring s0"] keeps_SerialThread_write k)
qed

lemma keeps_SocketThread_iteration:
  "same_wiring s0 s \<Longrightarrow> same_wiring s0 (state_of (SocketThread_iteration s r))"
  by (cases r)
    (auto simp: SocketThread_iteration_def split: option.splits
      intro!: and_then_state [where P = "same_wiring s0"] keeps_SocketThread_stop
        keeps_SocketThread_forward)

lemma keeps_find_serial_port:
  "same_wiring s0 s \<Longrightarrow> same_wiring s0 (state_of (find_serial_port scs s))"
  by (induction scs arbitrary: s) (auto split: option.splits)

lemma keeps_reconnect:
  "same_wiring s0 s \<Longrightarrow> same_wiring s0 (state_of (reconnect cfg rounds s))"
proof (induction rounds arbitrary: s)
  case Nil
  then show ?case by simp
next
  case (Cons a rounds)
  let ?d = "if MANUAL_PORT cfg then Return (serial_port s) (logged [Sleep 1] s)
            else and_then (find_serial_port (scans a) (logged [Sleep 1] s))
                   (\<lambda>p. Return (device p))"
  have d: "same_wiring s0 (state_of ?d)"
    using Cons.prems
    by (auto intro!: and_then_state [where P = "same_wiring s0"] keeps_find_serial_port)
  show ?case
  proof (cases ?d)
    case (Return dev t)
    with d have t: "same_wiring s0 t" by simp
    let ?t = "logged [Open_serial dev True] (t\<lparr>ser_serial := \<lparr>is_open = True, name = dev\<rparr>\<rparr>)"
    from t have "same_wiring s0 ?t" by (simp add: same_wiring_def logged_def)
    then have w: "same_wiring s0 (state_of (SerialThread_write ?t bridgeConnected))"
      by (rule keeps_SerialThread_write)
    from t have f: "same_wiring s0 (logged [Open_serial dev False] t)" by simp
    show ?thesis
    proof (cases "opens a")
      case True
      with Return w Cons.IH show ?thesis
        by (cases "SerialThread_write ?t bridgeConnected") simp_all
    next
      case False
      with Return f Cons.IH show ?thesis by simp
    qed
  next
    case (Raise e t)
    with d Cons.IH show ?thesis by simp
  next
    case (Waiting t)
    with d show ?thesis by simp
  qed
qed

lemma keeps_SerialThread_forward:
  "same_wiring s0 s \<Longrightarrow> same_wiring s0 (state_of (SerialThread_forward s d))"
  by (auto simp: SerialThread_forward_def split: sum.splits
      intro!: and_then_state [where P = "same_wiring s0"] keeps_SocketThread_write)

lemma keeps_SerialThread_iteration:
  assumes "same_wiring s0 s"
  shows "same_wiring s0 (state_of (SerialThread_iteration cfg s r))"
proof (cases r)
  case (Read_data d)
  with assms show ?thesis by (simp add: SerialThread_iteration_def keeps_SerialThread_forward)
next
  case (Read_error rounds)
  from assms have "same_wiring s0 (s\<lparr>ser_alive := False\<rparr>)" by (simp add: same_wiring_def)
  with assms Read_error show ?thesis by (simp add: SerialThread_iteration_def keeps_reconnect)
qed

lemma same_wiring_refl: "same_wiring s s"
  by (simp add: same_wiring_def)

text \<open>The socket thread is past the loop of line 72 only when \<^verbatim>\<open>serial_manager\<close> is
  set, and it has not reached its write without it.\<close>

lemma barrier_main_step:
  assumes "\<not> premature sys" and "pc sys = At_barrier \<or> serial_manager (shared sys)"
  shows "\<not> premature (main_step sys)
       \<and> (pc (main_step sys) = At_barrier \<or> serial_manager (shared (main_step sys)))"
proof (cases "todo sys")
  case Nil
  with assms show ?thesis by (simp add: main_step_def)
next
  case (Cons a later)
  with assms show ?thesis by (cases a) (auto simp: main_step_def)
qed

lemma barrier_socket_step:
  assumes "\<not> premature sys" and "pc sys = At_barrier \<or> serial_manager (shared sys)"
  shows "\<not> premature (socket_step connects r sys)
       \<and> (pc (socket_step connects r sys) = At_barrier
            \<or> serial_manager (shared (socket_step connects r sys)))"
proof (cases "sock_status (shared sys) = Started")
  case False
  with assms show ?thesis by (simp add: socket_step_def Let_def)
next
  case True
  show ?thesis
  proof (cases "pc sys")
    case At_barrier
    with True assms show ?thesis by (simp add: socket_step_def Let_def)
  next
    case At_connect
    with True assms show ?thesis by (simp add: socket_step_def Let_def)
  next
    case At_handshake
    with assms have m: "serial_manager (shared sys)" by simp
    from keeps_SerialThread_write [OF same_wiring_refl, of "shared sys" bridgeConnected]
      m True At_handshake assms(1)
    show ?thesis
      by (cases "SerialThread_write (shared sys) bridgeConnected")
        (simp_all add: socket_step_def Let_def same_wiring_def)
  next
    case In_loop
    with assms have m: "serial_manager (shared sys)" by simp
    from keeps_SocketThread_iteration [OF same_wiring_refl, of "shared sys" r]
      m True In_loop assms(1)
    show ?thesis
      by (cases "SocketThread_iteration (shared sys) r")
        (simp_all add: socket_step_def Let_def same_wiring_def)
  next
    case Ended
    with True assms show ?thesis by (simp add: socket_step_def Let_def)
  qed
qed

lemma serial_step_wiring:
  "same_wiring (shared sys) (shared (serial_step cfg r sys))
   \<and> todo (serial_step cfg r sys) = todo sys \<and> pc (serial_step cfg r sys) = pc sys
   \<and> premature (serial_step cfg r sys) = premature sys"
  using keeps_SerialThread_iteration [OF same_wiring_refl, of "shared sys" cfg r]
  by (cases "SerialThread_iteration cfg (shared sys) r")
    (simp_all add: serial_step_def Let_def same_wiring_def)

lemma barrier_serial_step:
  assumes "\<not> premature sys" and "pc sys = At_barrier \<or> serial_manager (shared sys)"
  shows "\<not> premature (serial_step cfg r sys)
       \<and> (pc (serial_step cfg r sys) = At_barrier
            \<or> serial_manager (shared (serial_step cfg r sys)))"
  using assms serial_step_wiring [of sys cfg r] by (auto simp: same_wiring_def)

lemma barrier_interleave:
  "\<not> premature sys \<Longrightarrow> pc sys = At_barrier \<or> serial_manager (shared sys)
     \<Longrightarrow> \<not> premature (interleave cfg connects turns sys)"
proof (induction turns arbitrary: sys)
  case Nil
  then show ?case by simp
next
  case (Cons t turns)
  have "\<not> premature (step cfg connects t sys)
       \<and> (pc (step cfg connects t sys) = At_barrier
            \<or> serial_manager (shared (step cfg connects t sys)))"
    using Cons.prems
    by (cases t) (simp_all add: barrier_main_step barrier_socket_step barrier_serial_step)
  with Cons.IH show ?case by simp
qed

lemma main_order_main_step:
  assumes "main_order sys"
  shows "main_order (main_step sys)"
proof (cases "todo sys")
  case Nil
  with assms show ?thesis by (simp add: main_step_def)
next
  case (Cons a later)
  with assms show ?thesis
    by (cases a) (auto simp: main_order_def main_step_def main_program_def)
qed

lemma main_order_socket_step:
  assumes "main_order sys"
  shows "main_order (socket_step connects r sys)"
proof (cases "sock_status (shared sys) = Started")
  case False
  then show ?thesis using assms by (simp add: socket_step_def Let_def)
next
  case True
  with assms have b: "serial_manager (shared sys)" "socket_manager (shared sys)"
    by (auto simp: main_order_def)
  have w: "main_order (sys\<lparr>shared := t, pc := q\<rparr>)" "main_order (sys\<lparr>shared := t\<rparr>)"
    "main_order (sys\<lparr>shared := t\<lparr>sock_status := Finished\<rparr>, pc := q\<rparr>)"
    if "serial_manager t" "socket_manager t" for t q
    using that by (simp_all add: main_order_def)
  show ?thesis
  proof (cases "pc sys")
    case At_barrier
    with True assms show ?thesis by (simp add: socket_step_def Let_def main_order_def)
  next
    case At_connect
    with True b show ?thesis by (simp add: socket_step_def Let_def main_order_def)
  next
    case At_handshake
    from keeps_SerialThread_write [OF same_wiring_refl, of "shared sys" bridgeConnected]
      True At_handshake b assms
    show ?thesis
      by (cases "SerialThread_write (shared sys) bridgeConnected")
        (simp_all add: socket_step_def Let_def same_wiring_def w)
  next
    case In_loop
    from keeps_SocketThread_iteration [OF same_wiring_refl, of "shared sys" r]
      True In_loop b assms
    show ?thesis
      by (cases "SocketThread_iteration (shared sys) r")
        (simp_all add: socket_step_def Let_def same_wiring_def w main_order_def)
  next
    case Ended
    with True assms show ?thesis by (simp add: socket_step_def Let_def)
  qed
qed

lemma main_order_serial_step: "main_order sys \<Longrightarrow> main_order (serial_step cfg r sys)"
  using serial_step_wiring [of sys cfg r] by (auto simp: main_order_def same_wiring_def)

lemma main_order_interleave:
  "main_order sys \<Longrightarrow> main_order (interleave cfg connects turns sys)"
proof (induction turns arbitrary: sys)
  case Nil
  then show ?case by simp
next
  case (Cons t turns)
  have "main_order (step cfg connects t sys)"
    using Cons.prems
    by (cases t) (simp_all add: main_order_main_step main_order_socket_step main_order_serial_step)
  with Cons.IH show ?case by simp
qed

text \<open>
  C9: in every execution the socket thread never reaches its first write to the serial
  channel (line 85) while its reference to the serial channel is unset.  This holds
  for every order of turns of the main thread, the socket thread and the serial
  thread, whatever the scripted reads are, from every state, and even for every order
  of the statements of \<^verbatim>\<open>main\<close>, because of the loop of line 72.  In \<^verbatim>\<open>main\<close> as it
  is written both peer references are set before the socket thread is started, so
  whenever the socket thread has taken a step, both are set.
\<close>

theorem no_write_before_publication:
  "\<not> premature (interleave cfg connects turns (start s program))
   \<and> (sock_status (shared (interleave cfg connects turns
                              (start (constructed selected dev) main_program))) = Created
      \<or> serial_manager (shared (interleave cfg connects turns
                                  (start (constructed selected dev) main_program)))
        \<and> socket_manager (shared (interleave cfg connects turns
                                    (start (constructed selected dev) main_program))))"
proof
  show "\<not> premature (interleave cfg connects turns (start s program))"
    by (simp add: barrier_interleave start_def)
next
  have "main_order (start (constructed selected dev) main_program)"
    by (simp add: main_order_def start_def constructed_def)
  then have "main_order (interleave cfg connects turns
                           (start (constructed selected dev) main_program))"
    by (rule main_order_interleave)
  then show "sock_status (shared (interleave cfg connects turns
                              (start (constructed selected dev) main_program))) = Created
      \<or> serial_manager (shared (interleave cfg connects turns
                                  (start (constructed selected dev) main_program)))
        \<and> socket_manager (shared (interleave cfg connects turns
                                    (start (constructed selected dev) main_program)))"
    by (auto simp: main_order_def)
qed

theorem no_write_before_publication_witness:
  "\<not> premature (interleave source_config True
        [Main_turn, Socket_turn Recv_timeout, Socket_turn Recv_timeout, Main_turn,
         Socket_turn Recv_timeout, Socket_turn Recv_timeout, Socket_turn Recv_timeout]
        (start (constructed ''COM3'' ''COM3'') [Start_socket, Set_serial_manager]))
   \<and> trace (shared (interleave source_config True
        [Main_turn, Socket_turn Recv_timeout, Socket_turn Recv_timeout, Main_turn,
         Socket_turn Recv_timeout, Socket_turn Recv_timeout, Socket_turn Recv_timeout]
        (start (constructed ''COM3'' ''COM3'') [Start_socket, Set_serial_manager])))
       = [Serial_write bridgeConnected]"
proof -
  note a = no_write_before_publication [where cfg = source_config and connects = True
      and turns = "[Main_turn, Socket_turn Recv_timeout, Socket_turn Recv_timeout, Main_turn,
         Socket_turn Recv_timeout, Socket_turn Recv_timeout, Socket_turn Recv_timeout]"
      and s = "constructed ''COM3'' ''COM3''" and program = "[Start_socket, Set_serial_manager]",
      THEN conjunct1]
  have b: "trace (shared (interleave source_config True
        [Main_turn, Socket_turn Recv_timeout, Socket_turn Recv_timeout, Main_turn,
         Socket_turn Recv_timeout, Socket_turn Recv_timeout, Socket_turn Recv_timeout]
        (start (constructed ''COM3'' ''COM3'') [Start_socket, Set_serial_manager])))
       = [Serial_write bridgeConnected]"
    by (simp add: start_def constructed_def main_step_def socket_step_def Let_def
        SerialThread_write_def logged_def new_socket_def)
  from a b show ?thesis by simp
qed

end
